theory Spec2Isabelle
  imports Complex_Main "HOL-Library.Multiset"
begin

section \<open>Progress route: the read-state upsert (user\_chapter\_reads\_v2)\<close>

text \<open>
  Step 8 of \<open>PATCH /api/library/[id]/progress\<close> records the read with one SQL statement,
  \<^verbatim>\<open>INSERT ... ON CONFLICT ("user_id", "chapter_id") DO UPDATE SET ... WHERE ...\<close>.
  Timestamps (\<open>timestamptz\<close>) are points on an integer time line; \<open>NOW()\<close> is passed in
  as \<open>now\<close>. The optional \<open>sourceId\<close> and \<open>deviceId\<close> of the request are options.
\<close>

record read_row =
  row_id :: string
  user_id :: string
  chapter_id :: string
  is_read :: bool
  updated_at :: int
  read_at :: int
  source_used_id :: "string option"
  device_id :: "string option"
  server_received_at :: int

text \<open>The table has a unique key \<open>(user_id, chapter_id)\<close>: a map from the key to the row.\<close>

type_synonym read_table = "string \<times> string \<rightharpoonup> read_row"

text \<open>The row of the \<open>VALUES\<close> clause (\<open>EXCLUDED\<close> in the conflict branch).\<close>

definition excluded_row ::
  "string \<Rightarrow> string \<Rightarrow> string \<Rightarrow> bool \<Rightarrow> int \<Rightarrow> string option \<Rightarrow> string option \<Rightarrow> int \<Rightarrow> read_row" where
  "excluded_row fresh_uuid uid lc_id isRead targetTimestamp sourceId deviceId now =
     \<lparr> row_id = fresh_uuid, user_id = uid, chapter_id = lc_id, is_read = isRead,
       updated_at = targetTimestamp, read_at = targetTimestamp, source_used_id = sourceId,
       device_id = deviceId, server_received_at = now \<rparr>"

text \<open>The \<open>WHERE\<close> clause of the conflict branch.\<close>

definition lww_where :: "read_row \<Rightarrow> read_row \<Rightarrow> bool" where
  "lww_where excluded existing \<longleftrightarrow>
     updated_at excluded > updated_at existing
     \<or> (updated_at excluded = updated_at existing
        \<and> server_received_at excluded < server_received_at existing)"

text \<open>The \<open>SET\<close> list of the conflict branch; \<open>id\<close>, \<open>user_id\<close>, \<open>chapter_id\<close> stay.\<close>

definition do_update_set :: "read_row \<Rightarrow> read_row \<Rightarrow> read_row" where
  "do_update_set excluded existing =
     existing \<lparr> is_read := is_read excluded,
                updated_at := updated_at excluded,
                device_id := device_id excluded,
                server_received_at := server_received_at excluded,
                read_at := (if is_read excluded then updated_at excluded else read_at existing),
                source_used_id := source_used_id excluded \<rparr>"

text \<open>
  The statement itself. The result is the table afterwards and the number of rows
  affected, which is what \<open>$executeRaw\<close> returns: 1 for an insert or an update, 0 when the
  \<open>WHERE\<close> clause rejects the update.
\<close>

definition upsert_read :: "read_table \<Rightarrow> read_row \<Rightarrow> read_table \<times> nat" where
  "upsert_read tbl excluded =
     (let k = (user_id excluded, chapter_id excluded) in
      case tbl k of
        None \<Rightarrow> (tbl(k \<mapsto> excluded), 1)
      | Some existing \<Rightarrow>
          if lww_where excluded existing
          then (tbl(k \<mapsto> do_update_set excluded existing), 1)
          else (tbl, 0))"

text \<open>Step 8 runs the statement only when the logical chapter was found.\<close>

definition record_chapter_read ::
  "read_table \<Rightarrow> string option \<Rightarrow> string \<Rightarrow> string \<Rightarrow> bool \<Rightarrow> int \<Rightarrow> string option
     \<Rightarrow> string option \<Rightarrow> int \<Rightarrow> read_table" where
  "record_chapter_read tbl logicalChapter fresh_uuid uid isRead targetTimestamp sourceId deviceId now =
     (case logicalChapter of
        None \<Rightarrow> tbl
      | Some lc_id \<Rightarrow>
          fst (upsert_read tbl
                 (excluded_row fresh_uuid uid lc_id isRead targetTimestamp sourceId deviceId now)))"

text \<open>The client-visible part of a stored row: everything but the generated id.\<close>

definition same_state :: "read_row \<Rightarrow> read_row \<Rightarrow> bool" where
  "same_state r s \<longleftrightarrow>
     user_id r = user_id s \<and> chapter_id r = chapter_id s \<and> is_read r = is_read s
     \<and> updated_at r = updated_at s \<and> read_at r = read_at s
     \<and> source_used_id r = source_used_id s \<and> device_id r = device_id s
     \<and> server_received_at r = server_received_at s"

text \<open>Two progress updates applied one after the other to a table.\<close>

definition apply_two :: "read_table \<Rightarrow> read_row \<Rightarrow> read_row \<Rightarrow> read_table" where
  "apply_two tbl first second = fst (upsert_read (fst (upsert_read tbl first)) second)"

section \<open>Removing a library entry: the follow counter\<close>

text \<open>
  \<open>removeFromLibrary\<close> (server action) and \<open>DELETE /api/library/[id]\<close> (route) both run,
  in one transaction: \<open>libraryEntry.findUnique\<close>, \<open>libraryEntry.delete\<close>, and the raw
  statement
  \<^verbatim>\<open>UPDATE series SET total_follows = GREATEST(0, total_follows - 1) WHERE id = ...\<close>.
  \<open>LibraryEntry\<close> is a soft-delete model of the database client: \<open>findUnique\<close> sees only
  rows with \<open>deleted_at\<close> null and \<open>delete\<close> stamps \<open>deleted_at\<close>.
\<close>

record library_entry =
  entry_id :: string
  entry_user_id :: string
  entry_series_id :: "string option"
  entry_deleted_at :: "int option"

record library_db =
  library_entries :: "library_entry list"
  series_total_follows :: "string \<rightharpoonup> int"

datatype remove_error =
  InvalidOrigin | RateLimited | Unauthorized | InvalidEntryId | EntryNotFound

text \<open>\<open>GREATEST(0, total_follows - 1)\<close>.\<close>

definition clamped_decrement :: "int \<Rightarrow> int" where
  "clamped_decrement total_follows = max 0 (total_follows - 1)"

text \<open>The \<open>UPDATE series\<close> statement: the row with that id, if there is one.\<close>

definition decrement_follows :: "(string \<rightharpoonup> int) \<Rightarrow> string \<Rightarrow> (string \<rightharpoonup> int)" where
  "decrement_follows series sid =
     (case series sid of None \<Rightarrow> series | Some n \<Rightarrow> series(sid \<mapsto> clamped_decrement n))"

text \<open>\<open>tx.libraryEntry.findUnique({ where: { id, user_id } })\<close> through the soft-delete filter.\<close>

definition find_entry :: "library_entry list \<Rightarrow> string \<Rightarrow> string \<Rightarrow> library_entry option" where
  "find_entry es eid uid =
     find (\<lambda>e. entry_id e = eid \<and> entry_user_id e = uid \<and> entry_deleted_at e = None) es"

text \<open>
  \<open>tx.libraryEntry.delete({ where })\<close>: the client turns it into an update of the rows the
  \<open>where\<close> selects, setting \<open>deleted_at\<close>; no row is taken out of the table.
\<close>

definition soft_delete_entries ::
  "(library_entry \<Rightarrow> bool) \<Rightarrow> int \<Rightarrow> library_entry list \<Rightarrow> library_entry list" where
  "soft_delete_entries sel now es =
     map (\<lambda>e. if sel e then e\<lparr>entry_deleted_at := Some now\<rparr> else e) es"

text \<open>The transaction body shared by both callers; they differ in the \<open>where\<close> of the delete.\<close>

definition remove_tx ::
  "(library_entry \<Rightarrow> bool) \<Rightarrow> string \<Rightarrow> string \<Rightarrow> int \<Rightarrow> library_db \<Rightarrow> remove_error + library_db" where
  "remove_tx delete_where eid uid now db =
     (case find_entry (library_entries db) eid uid of
        None \<Rightarrow> Inl EntryNotFound
      | Some entry \<Rightarrow>
          let es = soft_delete_entries delete_where now (library_entries db) in
          Inr \<lparr> library_entries = es,
                series_total_follows =
                  (case entry_series_id entry of
                     None \<Rightarrow> series_total_follows db
                   | Some sid \<Rightarrow> decrement_follows (series_total_follows db) sid) \<rparr>)"

text \<open>
  \<open>removeFromLibrary(entryId)\<close>: \<open>uuid_ok\<close> is the result of \<open>UUIDSchema.safeParse\<close>, \<open>user\<close>
  the session user. The delete selects by \<open>id\<close> alone.
\<close>

definition removeFromLibrary ::
  "bool \<Rightarrow> string option \<Rightarrow> string \<Rightarrow> int \<Rightarrow> library_db \<Rightarrow> remove_error + library_db" where
  "removeFromLibrary uuid_ok user entryId now db =
     (if \<not> uuid_ok then Inl InvalidEntryId
      else case user of
        None \<Rightarrow> Inl Unauthorized
      | Some uid \<Rightarrow> remove_tx (\<lambda>e. entry_id e = entryId) entryId uid now db)"

text \<open>
  The route handler \<open>DELETE\<close>: origin check, rate limit, session, UUID check, then the
  transaction. The delete selects by \<open>id\<close> and \<open>user_id\<close>.
\<close>

definition DELETE_library_entry ::
  "bool \<Rightarrow> bool \<Rightarrow> string option \<Rightarrow> bool \<Rightarrow> string \<Rightarrow> int \<Rightarrow> library_db \<Rightarrow> remove_error + library_db" where
  "DELETE_library_entry origin_ok rate_ok user uuid_ok entryId now db =
     (if \<not> origin_ok then Inl InvalidOrigin
      else if \<not> rate_ok then Inl RateLimited
      else case user of
        None \<Rightarrow> Inl Unauthorized
      | Some uid \<Rightarrow>
          if \<not> uuid_ok then Inl InvalidEntryId
          else remove_tx (\<lambda>e. entry_id e = entryId \<and> entry_user_id e = uid) entryId uid now db)"

text \<open>A removal request as it reaches one of the two entry points.\<close>

datatype removal =
  ViaAction bool "string option" string int
| ViaRoute bool bool "string option" bool string int

fun run_removal :: "removal \<Rightarrow> library_db \<Rightarrow> remove_error + library_db" where
  "run_removal (ViaAction uuid_ok user eid now) db = removeFromLibrary uuid_ok user eid now db"
| "run_removal (ViaRoute origin_ok rate_ok user uuid_ok eid now) db =
     DELETE_library_entry origin_ok rate_ok user uuid_ok eid now db"

text \<open>A sequence of requests; a failed one leaves the database as it was.\<close>

fun run_removals :: "removal list \<Rightarrow> library_db \<Rightarrow> library_db" where
  "run_removals [] db = db"
| "run_removals (r # rs) db =
     (case run_removal r db of Inl _ \<Rightarrow> run_removals rs db | Inr db' \<Rightarrow> run_removals rs db')"

definition follows_nonneg :: "library_db \<Rightarrow> bool" where
  "follows_nonneg db \<longleftrightarrow> (\<forall>sid n. series_total_follows db sid = Some n \<longrightarrow> 0 \<le> n)"

text \<open>The entry a request removes, when it removes one.\<close>

fun removal_target :: "removal \<Rightarrow> library_db \<Rightarrow> library_entry option" where
  "removal_target (ViaAction uuid_ok user eid now) db =
     (case user of None \<Rightarrow> None | Some uid \<Rightarrow> find_entry (library_entries db) eid uid)"
| "removal_target (ViaRoute origin_ok rate_ok user uuid_ok eid now) db =
     (case user of None \<Rightarrow> None | Some uid \<Rightarrow> find_entry (library_entries db) eid uid)"


section \<open>Sync reconciler: draining the outbox\<close>

text \<open>
  Modelled from the spec: the declaration of \<open>SyncAction\<close> lives in \<open>outbox.ts\<close>, which
  is not among the sources. The spec gives an outbox action as
  \<open>{id, type, payload, timestamp, deviceId, retryCount}\<close> with five action types, the
  five cases of the \<open>switch\<close> in \<open>executeAction\<close> (its \<open>default\<close> branch is for no type of
  the union). The payload is kept opaque: the handlers only copy it into the request.
\<close>

datatype action_type = CHAPTER_READ | LIBRARY_UPDATE | LIBRARY_DELETE | LIBRARY_ADD | SETTING_UPDATE

record sync_action =
  action_id :: string
  action_type :: action_type
  payload :: string
  timestamp :: int
  deviceId :: string
  retryCount :: nat

definition MAX_RETRIES :: nat where
  "MAX_RETRIES = 5"

text \<open>
  The calls of \<open>fetch\<close>: the batch endpoint with the list of actions it carries, and one
  endpoint per handler, each with the action whose payload fills URL and body.
\<close>

datatype request =
  POST_sync_replay "sync_action list"
| PATCH_progress sync_action
| PATCH_library sync_action
| DELETE_library sync_action
| POST_library sync_action
| PATCH_users_me sync_action

text \<open>
  What \<open>await fetch(...)\<close> gives: a rejected promise, or a response with its status and,
  for the batch endpoint, the \<open>results\<close> array of its JSON body (\<open>None\<close> when the body
  does not parse or has no iterable \<open>results\<close>). One result is an object
  \<open>{id, status}\<close>.
\<close>

type_synonym replay_result = "string \<times> string"

datatype response = FetchRejected | HttpResponse nat "replay_result list option"

definition response_ok :: "nat \<Rightarrow> bool" where
  "response_ok status \<longleftrightarrow> 200 \<le> status \<and> status \<le> 299"

text \<open>
  The server is outside the program: a transition function on a state of its own, so that
  the response to a request may depend on every request answered before it.
\<close>

type_synonym 's server = "'s \<Rightarrow> request \<Rightarrow> response \<times> 's"

text \<open>
  What a drain pass does, in program order: network calls, the two outbox calls
  \<open>SyncOutbox.dequeue(id)\<close> and \<open>SyncOutbox.updateRetry(id)\<close>, and the warning logged for a
  skipped action.
\<close>

datatype effect = Fetch request | Dequeue string | UpdateRetry string | WarnSkipped string

text \<open>The request each handler of \<open>executeAction\<close> sends.\<close>

definition handler_request :: "sync_action \<Rightarrow> request" where
  "handler_request a =
     (case action_type a of
        CHAPTER_READ \<Rightarrow> PATCH_progress a
      | LIBRARY_UPDATE \<Rightarrow> PATCH_library a
      | LIBRARY_DELETE \<Rightarrow> DELETE_library a
      | LIBRARY_ADD \<Rightarrow> POST_library a
      | SETTING_UPDATE \<Rightarrow> PATCH_users_me a)"

text \<open>
  The boolean each handler returns for a response: \<open>handleChapterRead\<close> accepts 409,
  \<open>handleLibraryDelete\<close> accepts 404, the other three return \<open>response.ok\<close>.
\<close>

fun handler_result :: "action_type \<Rightarrow> nat \<Rightarrow> bool" where
  "handler_result CHAPTER_READ status = (response_ok status \<or> status = 409)"
| "handler_result LIBRARY_UPDATE status = response_ok status"
| "handler_result LIBRARY_DELETE status = (response_ok status \<or> status = 404)"
| "handler_result LIBRARY_ADD status = response_ok status"
| "handler_result SETTING_UPDATE status = response_ok status"

text \<open>
  \<open>executeAction\<close>: one request; \<open>Some b\<close> is the returned boolean, \<open>None\<close> the exception
  of a rejected \<open>fetch\<close>.
\<close>

definition executeAction :: "'s server \<Rightarrow> 's \<Rightarrow> sync_action \<Rightarrow> bool option \<times> 's" where
  "executeAction srv s a =
     (case srv s (handler_request a) of
        (FetchRejected, s') \<Rightarrow> (None, s')
      | (HttpResponse status body, s') \<Rightarrow> (Some (handler_result (action_type a) status), s'))"

text \<open>Part 2 of \<open>processOutbox\<close>: what follows the batch response.\<close>

definition retry_all :: "sync_action list \<Rightarrow> effect list" where
  "retry_all as = map (\<lambda>a. UpdateRetry (action_id a)) as"

definition result_effect :: "replay_result \<Rightarrow> effect" where
  "result_effect res = (if snd res = ''success'' then Dequeue (fst res) else UpdateRetry (fst res))"

fun batch_effects :: "response \<Rightarrow> sync_action list \<Rightarrow> effect list" where
  "batch_effects FetchRejected chapterReadActions = retry_all chapterReadActions"
| "batch_effects (HttpResponse status body) chapterReadActions =
     (if response_ok status then
        (case body of
           None \<Rightarrow> retry_all chapterReadActions
         | Some results \<Rightarrow> map result_effect results)
      else retry_all chapterReadActions)"

definition replay_batch :: "'s server \<Rightarrow> 's \<Rightarrow> sync_action list \<Rightarrow> effect list \<times> 's" where
  "replay_batch srv s chapterReadActions =
     (if chapterReadActions = [] then ([], s)
      else case srv s (POST_sync_replay chapterReadActions) of
        (resp, s') \<Rightarrow>
          (Fetch (POST_sync_replay chapterReadActions) # batch_effects resp chapterReadActions, s'))"

text \<open>Part 3: the \<open>for\<close> loop over the other actions.\<close>

fun replay_sequential :: "'s server \<Rightarrow> 's \<Rightarrow> sync_action list \<Rightarrow> effect list \<times> 's" where
  "replay_sequential srv s [] = ([], s)"
| "replay_sequential srv s (a # as) =
     (if retryCount a \<ge> MAX_RETRIES then
        (case replay_sequential srv s as of
           (es, s') \<Rightarrow> (WarnSkipped (action_id a) # es, s'))
      else
        (case executeAction srv s a of
           (r, s1) \<Rightarrow>
             (case replay_sequential srv s1 as of
                (es, s2) \<Rightarrow>
                  (Fetch (handler_request a)
                   # (if r = Some True then Dequeue (action_id a) else UpdateRetry (action_id a))
                   # es, s2))))"

text \<open>
  \<open>processOutbox\<close>. \<open>online\<close> is the guard of its first line (a window exists and
  \<open>navigator.onLine\<close>), \<open>actions\<close> is what \<open>SyncOutbox.getActions()\<close> returned.
  \<open>Array.prototype.sort\<close> is stable, as \<open>sort_key\<close> is.
\<close>

definition sortedActions :: "sync_action list \<Rightarrow> sync_action list" where
  "sortedActions actions = sort_key timestamp actions"

definition chapterReadActions :: "sync_action list \<Rightarrow> sync_action list" where
  "chapterReadActions actions = filter (\<lambda>a. action_type a = CHAPTER_READ) (sortedActions actions)"

definition otherActions :: "sync_action list \<Rightarrow> sync_action list" where
  "otherActions actions = filter (\<lambda>a. action_type a \<noteq> CHAPTER_READ) (sortedActions actions)"

definition processOutbox :: "bool \<Rightarrow> 's server \<Rightarrow> 's \<Rightarrow> sync_action list \<Rightarrow> effect list \<times> 's" where
  "processOutbox online srv s actions =
     (if \<not> online then ([], s)
      else if actions = [] then ([], s)
      else case replay_batch srv s (chapterReadActions actions) of
        (es1, s1) \<Rightarrow>
          (case replay_sequential srv s1 (otherActions actions) of
             (es2, s2) \<Rightarrow> (es1 @ es2, s2)))"

text \<open>The network calls of a run, in the order they were made.\<close>

fun fetches :: "effect list \<Rightarrow> request list" where
  "fetches [] = []"
| "fetches (Fetch r # es) = r # fetches es"
| "fetches (e # es) = fetches es"

text \<open>A server answering one request after the other, each from the state the last left.\<close>

fun serve_all :: "'s server \<Rightarrow> 's \<Rightarrow> request list \<Rightarrow> 's" where
  "serve_all srv s [] = s"
| "serve_all srv s (r # rs) = serve_all srv (snd (srv s r)) rs"

text \<open>
  Modelled from the spec: \<open>SyncOutbox\<close> (\<open>outbox.ts\<close>) is not among the sources. By the
  spec an action is "removed on confirmed server acceptance" and its "retry count
  incremented on failure": \<open>dequeue\<close> removes the action with that id, \<open>updateRetry\<close>
  adds one to its \<open>retryCount\<close>.
\<close>

definition dequeue :: "string \<Rightarrow> sync_action list \<Rightarrow> sync_action list" where
  "dequeue i outbox = filter (\<lambda>a. action_id a \<noteq> i) outbox"

definition updateRetry :: "string \<Rightarrow> sync_action list \<Rightarrow> sync_action list" where
  "updateRetry i outbox =
     map (\<lambda>a. if action_id a = i then a\<lparr>retryCount := retryCount a + 1\<rparr> else a) outbox"

fun outbox_effect :: "effect \<Rightarrow> sync_action list \<Rightarrow> sync_action list" where
  "outbox_effect (Dequeue i) outbox = dequeue i outbox"
| "outbox_effect (UpdateRetry i) outbox = updateRetry i outbox"
| "outbox_effect (Fetch r) outbox = outbox"
| "outbox_effect (WarnSkipped i) outbox = outbox"

fun outbox_after :: "effect list \<Rightarrow> sync_action list \<Rightarrow> sync_action list" where
  "outbox_after [] outbox = outbox"
| "outbox_after (e # es) outbox = outbox_after es (outbox_effect e outbox)"

text \<open>How the batch response marked an action.\<close>

definition marked_success :: "replay_result list \<Rightarrow> sync_action \<Rightarrow> bool" where
  "marked_success results a \<longleftrightarrow> (action_id a, ''success'') \<in> set results"

definition marked_failure :: "replay_result list \<Rightarrow> sync_action \<Rightarrow> bool" where
  "marked_failure results a \<longleftrightarrow>
     (\<exists>st. (action_id a, st) \<in> set results \<and> st \<noteq> ''success'')"

text \<open>Servers and actions for the examples.\<close>

definition mk_action :: "string \<Rightarrow> action_type \<Rightarrow> int \<Rightarrow> nat \<Rightarrow> sync_action" where
  "mk_action i t ts rc =
     \<lparr> action_id = i, action_type = t, payload = ''{}'', timestamp = ts,
       deviceId = ''dev-1'', retryCount = rc \<rparr>"

fun always_ok :: "unit server" where
  "always_ok s (POST_sync_replay as) =
     (HttpResponse 200 (Some (map (\<lambda>a. (action_id a, ''success'')) as)), s)"
| "always_ok s r = (HttpResponse 200 None, s)"

fun always_conflict :: "unit server" where
  "always_conflict s r = (HttpResponse 409 None, s)"

fun second_fails :: "unit server" where
  "second_fails s r =
     (HttpResponse 200 (Some [(''a1'', ''success''), (''a2'', ''failure''), (''a3'', ''success'')]), s)"


section \<open>Database client: the soft-delete extension\<close>

text \<open>
  \<open>prismaClientSingleton\<close> wraps every model operation of the client in
  \<open>$allOperations({ model, operation, args, query })\<close>. JavaScript objects are maps from
  property names to values; the spread \<open>{ ...a, k: v }\<close> is \<open>a(k \<mapsto> v)\<close>, with \<open>a\<close> empty
  when it is undefined.
\<close>

datatype val = Null | Str string | Num int | Date int

type_synonym row = "string \<rightharpoonup> val"

text \<open>A column that the row does not mention is null.\<close>

definition field :: "row \<Rightarrow> string \<Rightarrow> val" where
  "field r k = (case r k of None \<Rightarrow> Null | Some v \<Rightarrow> v)"

text \<open>
  One property of a \<open>where\<close> object: a plain value, which selects by equality, or any
  other filter of the query language (\<open>{ not: ... }\<close>, \<open>OR\<close>, a relation filter),
  kept as the predicate on rows that it denotes. A row is selected when it satisfies
  every property.
\<close>

datatype cond = Equals val | Cond "(string \<rightharpoonup> val) \<Rightarrow> bool"

type_synonym where_obj = "string \<rightharpoonup> cond"

fun holds :: "row \<Rightarrow> string \<Rightarrow> cond \<Rightarrow> bool" where
  "holds r k (Equals v) = (field r k = v)"
| "holds r k (Cond p) = p r"

definition matches :: "where_obj \<Rightarrow> row \<Rightarrow> bool" where
  "matches w r \<longleftrightarrow> (\<forall>k c. w k = Some c \<longrightarrow> holds r k c)"

record args =
  where_arg :: "where_obj option"
  data_arg :: "row option"
  create_arg :: "row option"
  update_arg :: "row option"

datatype operation =
  FindUnique | FindUniqueOrThrow | FindFirst | FindFirstOrThrow | FindMany
| CountRows | Aggregate | GroupBy
| Delete | DeleteMany | Update | UpdateMany | Upsert | Create

datatype client_error = ValidationError | RecordNotFound

datatype result =
  Found "row option"
| Rows "row list"
| Counted nat
| Aggregated "row list"
| Failed client_error

definition spread :: "('k \<rightharpoonup> 'v) option \<Rightarrow> ('k \<rightharpoonup> 'v)" where
  "spread obj = (case obj of None \<Rightarrow> Map.empty | Some m \<Rightarrow> m)"

fun update_first :: "(row \<Rightarrow> bool) \<Rightarrow> (row \<Rightarrow> row) \<Rightarrow> row list \<Rightarrow> row list" where
  "update_first P f [] = []"
| "update_first P f (r # rs) = (if P r then f r # rs else r # update_first P f rs)"

fun remove_first :: "(row \<Rightarrow> bool) \<Rightarrow> row list \<Rightarrow> row list" where
  "remove_first P [] = []"
| "remove_first P (r # rs) = (if P r then rs else r # remove_first P rs)"

text \<open>
  The client underneath the extension (\<open>query(args)\<close>, and \<open>client[model]\<close> for the
  redirected deletes), on the table of one model. It is the library's, not the
  repository's: reads return or count the rows the \<open>where\<close> selects; \<open>update\<close>, \<open>delete\<close>
  and \<open>upsert\<close> need a \<open>where\<close>, and the first two fail with \<open>P2025\<close> when it selects no
  row; \<open>aggregate\<close> and \<open>groupBy\<close> are given by the rows they compute on. Of the
  arguments only \<open>where\<close>, \<open>data\<close>, \<open>create\<close> and \<open>update\<close> are kept; rows of other
  models reached through \<open>include\<close> or \<open>select\<close> are not part of a result here.
\<close>

fun query :: "operation \<Rightarrow> args \<Rightarrow> row list \<Rightarrow> result \<times> row list" where
  "query FindUnique a tbl = (Found (find (matches (spread (where_arg a))) tbl), tbl)"
| "query FindFirst a tbl = (Found (find (matches (spread (where_arg a))) tbl), tbl)"
| "query FindUniqueOrThrow a tbl =
     (case find (matches (spread (where_arg a))) tbl of
        None \<Rightarrow> (Failed RecordNotFound, tbl)
      | Some r \<Rightarrow> (Found (Some r), tbl))"
| "query FindFirstOrThrow a tbl =
     (case find (matches (spread (where_arg a))) tbl of
        None \<Rightarrow> (Failed RecordNotFound, tbl)
      | Some r \<Rightarrow> (Found (Some r), tbl))"
| "query FindMany a tbl = (Rows (filter (matches (spread (where_arg a))) tbl), tbl)"
| "query CountRows a tbl = (Counted (length (filter (matches (spread (where_arg a))) tbl)), tbl)"
| "query Aggregate a tbl = (Aggregated (filter (matches (spread (where_arg a))) tbl), tbl)"
| "query GroupBy a tbl = (Aggregated (filter (matches (spread (where_arg a))) tbl), tbl)"
| "query Update a tbl =
     (case where_arg a of
        None \<Rightarrow> (Failed ValidationError, tbl)
      | Some w \<Rightarrow>
          (case find (matches w) tbl of
             None \<Rightarrow> (Failed RecordNotFound, tbl)
           | Some r \<Rightarrow>
               (Found (Some (r ++ spread (data_arg a))),
                update_first (matches w) (\<lambda>r. r ++ spread (data_arg a)) tbl)))"
| "query UpdateMany a tbl =
     (Counted (length (filter (matches (spread (where_arg a))) tbl)),
      map (\<lambda>r. if matches (spread (where_arg a)) r then r ++ spread (data_arg a) else r) tbl)"
| "query Delete a tbl =
     (case where_arg a of
        None \<Rightarrow> (Failed ValidationError, tbl)
      | Some w \<Rightarrow>
          (case find (matches w) tbl of
             None \<Rightarrow> (Failed RecordNotFound, tbl)
           | Some r \<Rightarrow> (Found (Some r), remove_first (matches w) tbl)))"
| "query DeleteMany a tbl =
     (Counted (length (filter (matches (spread (where_arg a))) tbl)),
      filter (\<lambda>r. \<not> matches (spread (where_arg a)) r) tbl)"
| "query Upsert a tbl =
     (case where_arg a of
        None \<Rightarrow> (Failed ValidationError, tbl)
      | Some w \<Rightarrow>
          (case find (matches w) tbl of
             None \<Rightarrow> (Found (Some (spread (create_arg a))), tbl @ [spread (create_arg a)])
           | Some r \<Rightarrow>
               (Found (Some (r ++ spread (update_arg a))),
                update_first (matches w) (\<lambda>r. r ++ spread (update_arg a)) tbl)))"
| "query Create a tbl = (Found (Some (spread (data_arg a))), tbl @ [spread (data_arg a)])"

definition SOFT_DELETE_MODELS :: "string list" where
  "SOFT_DELETE_MODELS = [''User'', ''Series'', ''Chapter'', ''LibraryEntry'']"

definition read_operations :: "operation list" where
  "read_operations =
     [FindUnique, FindUniqueOrThrow, FindFirst, FindFirstOrThrow, FindMany,
      CountRows, Aggregate, GroupBy]"

text \<open>\<open>{ ...args.where, deleted_at: null }\<close>.\<close>

definition where_not_deleted :: "where_obj option \<Rightarrow> where_obj" where
  "where_not_deleted w = (spread w)(''deleted_at'' \<mapsto> Equals Null)"

text \<open>
  \<open>$allOperations\<close>, statement by statement; \<open>now\<close> is \<open>new Date()\<close>. The database maps a
  model to its table, and an operation touches the table of its model.
\<close>

definition allOperations ::
  "string \<Rightarrow> operation \<Rightarrow> args \<Rightarrow> int \<Rightarrow> (string \<Rightarrow> row list) \<Rightarrow> result \<times> (string \<Rightarrow> row list)" where
  "allOperations model operation args0 now db =
     (let run = (\<lambda>op a. case query op a (db model) of (res, tbl) \<Rightarrow> (res, db(model := tbl))) in
      if model \<in> set SOFT_DELETE_MODELS then
        let args1 = (if operation \<in> set read_operations
                     then args0\<lparr>where_arg := Some (where_not_deleted (where_arg args0))\<rparr>
                     else args0) in
        if operation = Delete then
          run Update (args1\<lparr>data_arg := Some (Map.empty(''deleted_at'' \<mapsto> Date now))\<rparr>)
        else if operation = DeleteMany then
          run UpdateMany (args1\<lparr>data_arg := Some (Map.empty(''deleted_at'' \<mapsto> Date now))\<rparr>)
        else
          let args2 = (if operation = Update \<or> operation = UpdateMany then
                         (case where_arg args1 of
                            None \<Rightarrow> args1
                          | Some w \<Rightarrow> args1\<lparr>where_arg := Some (where_not_deleted (Some w))\<rparr>)
                       else args1);
              args3 = (if operation = Upsert
                       then args2\<lparr>update_arg := Some ((spread (update_arg args2))(''deleted_at'' \<mapsto> Null))\<rparr>
                       else args2)
          in run operation args3
      else run operation args0)"

text \<open>The rows a result hands to the caller, or computes a number from.\<close>

fun returned :: "result \<Rightarrow> row list" where
  "returned (Found None) = []"
| "returned (Found (Some r)) = [r]"
| "returned (Rows rs) = rs"
| "returned (Aggregated rs) = rs"
| "returned (Counted n) = []"
| "returned (Failed e) = []"

definition live :: "row \<Rightarrow> bool" where
  "live r \<longleftrightarrow> field r ''deleted_at'' = Null"

section \<open>Crawl scheduler\<close>

text \<open>
  Modelled from the spec: the scheduler (\<open>runMasterScheduler\<close>, \<open>master.scheduler\<close>) is not
  among the sources. Section 4.3 of the spec: skip the cycle when the waiting count of the
  crawl queue exceeds the ceiling; select the \<open>SeriesSource\<close> rows with
  \<open>next_check_at <= now\<close> whose owning series has tier A or B, leaving out sources at
  or above the failure ceiling; enqueue one crawl job per selected source and advance its
  \<open>next_check_at\<close> by the interval of the tier.
\<close>

datatype catalog_tier = Tier_A | Tier_B | Tier_C

record series_source =
  source_id :: string
  source_series_id :: string
  next_check_at :: int
  failure_count :: nat

definition owner_tier :: "(string \<rightharpoonup> catalog_tier) \<Rightarrow> series_source \<Rightarrow> catalog_tier option" where
  "owner_tier tiers src = tiers (source_series_id src)"

definition is_due ::
  "(string \<rightharpoonup> catalog_tier) \<Rightarrow> nat \<Rightarrow> int \<Rightarrow> series_source \<Rightarrow> bool" where
  "is_due tiers failure_ceiling now src \<longleftrightarrow>
     next_check_at src \<le> now
     \<and> (owner_tier tiers src = Some Tier_A \<or> owner_tier tiers src = Some Tier_B)
     \<and> failure_count src < failure_ceiling"

definition advance ::
  "(string \<rightharpoonup> catalog_tier) \<Rightarrow> (catalog_tier \<Rightarrow> int) \<Rightarrow> int \<Rightarrow> series_source \<Rightarrow> series_source" where
  "advance tiers interval now src =
     (case owner_tier tiers src of
        None \<Rightarrow> src
      | Some t \<Rightarrow> src\<lparr>next_check_at := now + interval t\<rparr>)"

text \<open>The result: the batch of sources enqueued, and the source table afterwards.\<close>

definition runMasterScheduler ::
  "nat \<Rightarrow> nat \<Rightarrow> nat \<Rightarrow> (catalog_tier \<Rightarrow> int) \<Rightarrow> int \<Rightarrow> (string \<rightharpoonup> catalog_tier)
     \<Rightarrow> series_source list \<Rightarrow> series_source list \<times> series_source list" where
  "runMasterScheduler waiting backlog_ceiling failure_ceiling interval now tiers sources =
     (if waiting > backlog_ceiling then ([], sources)
      else (filter (is_due tiers failure_ceiling now) sources,
            map (\<lambda>src. if is_due tiers failure_ceiling now src
                        then advance tiers interval now src else src) sources))"

section \<open>Gap recovery\<close>

text \<open>
  Modelled from the spec: the detector (\<open>processGapRecovery\<close>, \<open>gap-recovery.processor\<close>)
  is not among the sources. Section 4.5 of the spec: take the chapter numbers of the
  series' logical chapters without the sentinel, sort them, and report every integer
  strictly between the least and the greatest integer chapter number that is not a
  chapter number; numbers that are not integers set no bounds. With at least one gap,
  enqueue a re-crawl for each source of the series whose \<open>failure_count\<close> is below the
  ceiling and return \<open>{status: 'triggered', gapCount, sourceCount}\<close>; with none, do nothing.
  Chapter numbers are decimals, here rationals.
\<close>

definition NO_NUMBER_SENTINEL :: rat where
  "NO_NUMBER_SENTINEL = - 1"

definition FAILURE_CEILING :: nat where
  "FAILURE_CEILING = 5"

definition is_integer :: "rat \<Rightarrow> bool" where
  "is_integer x \<longleftrightarrow> of_int \<lfloor>x\<rfloor> = x"

definition integer_chapters :: "rat list \<Rightarrow> int list" where
  "integer_chapters numbers =
     sort (map floor (filter (\<lambda>x. x \<noteq> NO_NUMBER_SENTINEL \<and> is_integer x) numbers))"

text \<open>The integer chapter numbers observed for the series, sentinel left out.\<close>

definition observed :: "rat list \<Rightarrow> int set" where
  "observed numbers = {n. of_int n \<in> set numbers \<and> (of_int n :: rat) \<noteq> NO_NUMBER_SENTINEL}"

definition detect_gaps :: "rat list \<Rightarrow> int list" where
  "detect_gaps numbers =
     (case integer_chapters numbers of
        [] \<Rightarrow> []
      | lo # rest \<Rightarrow>
          filter (\<lambda>n. n \<notin> set (lo # rest)) [lo + 1 .. last (lo # rest) - 1])"

datatype gap_result = NoGaps | Triggered nat nat

definition healthy_sources :: "string \<Rightarrow> series_source list \<Rightarrow> series_source list" where
  "healthy_sources sid sources =
     filter (\<lambda>s. source_series_id s = sid \<and> failure_count s < FAILURE_CEILING) sources"

text \<open>The result and the re-crawl jobs enqueued, one source id each.\<close>

definition processGapRecovery ::
  "string \<Rightarrow> rat list \<Rightarrow> series_source list \<Rightarrow> gap_result \<times> string list" where
  "processGapRecovery sid numbers sources =
     (let gaps = detect_gaps numbers; healthy = healthy_sources sid sources in
      if gaps = [] then (NoGaps, [])
      else (Triggered (length gaps) (length healthy), map source_id healthy))"

section \<open>Chapter ingestion\<close>

text \<open>
  Modelled from the spec: the ingestion engine (\<open>processChapterIngest\<close>,
  \<open>chapter-ingest.processor\<close>) is not among the sources. Section 4.4 of the spec, one
  report per call: (1) resolve or create the \<open>LogicalChapter\<close> for
  \<open>(seriesId, chapterNumber ?? SENTINEL)\<close> by an upsert on that key; (2) resolve or
  create the \<open>ChapterSource\<close> keyed by \<open>(seriesSourceId, sourceChapterId)\<close>, a
  re-ingestion updating title, URL and availability; (3) create one \<open>FeedEntry\<close> if this
  is the first \<open>ChapterSource\<close> ever attached to the logical chapter; (4) update the
  series' \<open>last_chapter_at\<close> and raise its activity score. The three tables are lists of
  rows; a \<open>ChapterSource\<close> names its logical chapter by the chapter's key.
\<close>

record chapter_report =
  seriesSourceId :: string
  seriesId :: string
  chapterNumber :: "rat option"
  chapterTitle :: string
  chapterUrl :: string
  sourceChapterId :: "string option"
  publishedAt :: int


record chapter_source =
  cs_series_source_id :: string
  cs_source_chapter_id :: "string option"
  cs_logical_chapter :: "string \<times> rat"
  cs_title :: string
  cs_url :: string
  cs_available :: bool





definition cs_key :: "chapter_source \<Rightarrow> string \<times> string option" where
  "cs_key c = (cs_series_source_id c, cs_source_chapter_id c)"


definition report_cs_key :: "chapter_report \<Rightarrow> string \<times> string option" where
  "report_cs_key r = (seriesSourceId r, sourceChapterId r)"









text \<open>Example data.\<close>

definition row0 :: read_row where
  "row0 = excluded_row ''id-0'' ''u'' ''c'' True 100 None (Some ''phone'') 1000"

definition db0 :: library_db where
  "db0 = \<lparr> library_entries =
             [\<lparr> entry_id = ''e1'', entry_user_id = ''u1'', entry_series_id = Some ''s1'',
                entry_deleted_at = None \<rparr>,
              \<lparr> entry_id = ''e2'', entry_user_id = ''u2'', entry_series_id = Some ''s1'',
                entry_deleted_at = None \<rparr>],
           series_total_follows = Map.empty(''s1'' \<mapsto> 1) \<rparr>"

definition removals0 :: "removal list" where
  "removals0 = [ViaAction True (Some ''u1'') ''e1'' 50,
                ViaRoute True True (Some ''u2'') True ''e2'' 60]"

definition snapshot0 :: "sync_action list" where
  "snapshot0 = [mk_action ''a1'' LIBRARY_ADD 30 0, mk_action ''a2'' CHAPTER_READ 20 0,
                mk_action ''a3'' LIBRARY_UPDATE 10 4, mk_action ''a4'' CHAPTER_READ 5 0,
                mk_action ''a5'' SETTING_UPDATE 7 5]"

definition outbox3 :: "sync_action list" where
  "outbox3 = [mk_action ''a1'' CHAPTER_READ 1 0, mk_action ''a2'' CHAPTER_READ 2 0,
              mk_action ''a3'' CHAPTER_READ 3 0]"


definition e_live :: row where
  "e_live = [''id'' \<mapsto> Str ''e1'', ''status'' \<mapsto> Str ''reading'']"

definition e_gone :: row where
  "e_gone = [''id'' \<mapsto> Str ''e2'', ''status'' \<mapsto> Str ''reading'', ''deleted_at'' \<mapsto> Date 7]"

definition entries0 :: "string \<Rightarrow> row list" where
  "entries0 = (\<lambda>m. [])(''LibraryEntry'' := [e_live, e_gone])"

definition by_id :: "string \<Rightarrow> args" where
  "by_id i = \<lparr> where_arg = Some [''id'' \<mapsto> Equals (Str i)], data_arg = None,
               create_arg = None, update_arg = None \<rparr>"

definition no_args :: args where
  "no_args = \<lparr> where_arg = None, data_arg = None, create_arg = None, update_arg = None \<rparr>"


definition interval0 :: "catalog_tier \<Rightarrow> int" where
  "interval0 t = (case t of Tier_A \<Rightarrow> 60 | Tier_B \<Rightarrow> 360 | Tier_C \<Rightarrow> 0)"

definition tiers0 :: "string \<rightharpoonup> catalog_tier" where
  "tiers0 = [''series-a'' \<mapsto> Tier_A, ''series-c'' \<mapsto> Tier_C]"

definition source_a :: series_source where
  "source_a = \<lparr> source_id = ''a1'', source_series_id = ''series-a'', next_check_at = 99,
                failure_count = 0 \<rparr>"

definition source_c :: series_source where
  "source_c = \<lparr> source_id = ''c1'', source_series_id = ''series-c'', next_check_at = 99,
                failure_count = 0 \<rparr>"

definition present0 :: "rat list" where
  "present0 = [1, 2, 5, 10]"

definition present1 :: "rat list" where
  "present1 = [1, 2, 3]"

definition sources0 :: "series_source list" where
  "sources0 =
     [\<lparr> source_id = ''src-1'', source_series_id = ''s1'', next_check_at = 0, failure_count = 0 \<rparr>,
      \<lparr> source_id = ''src-2'', source_series_id = ''s1'', next_check_at = 0, failure_count = 5 \<rparr>,
      \<lparr> source_id = ''src-3'', source_series_id = ''s2'', next_check_at = 0, failure_count = 0 \<rparr>]"









section \<open>Last-writer-wins on the read-state\<close>

lemma tie_first_received_wins:
  fixes tbl :: read_table
  assumes fresh: "tbl (uid, lc) = None" and recv: "t1 < t2"
  shows "\<exists>r. apply_two tbl (excluded_row ida uid lc ra ts sa da t1)
                (excluded_row idb uid lc rb ts sb db t2) (uid, lc) = Some r
             \<and> same_state r (excluded_row ida uid lc ra ts sa da t1)"
    and "\<exists>r. apply_two tbl (excluded_row idb uid lc rb ts sb db t2)
                (excluded_row ida uid lc ra ts sa da t1) (uid, lc) = Some r
             \<and> same_state r (excluded_row ida uid lc ra ts sa da t1)"
  using fresh recv
  by (simp_all add: apply_two_def upsert_read_def excluded_row_def lww_where_def
        do_update_set_def same_state_def)

text \<open>
  Claim C1. For two progress updates of the same user on the same logical chapter, the
  stored read-state follows last-writer-wins on \<open>updated_at\<close>: an update meeting an existing
  row overwrites it (one row affected, the row now carries the update's read-state) if and
  only if its \<open>updated_at\<close> is strictly greater, or equal with a strictly earlier
  \<open>server_received_at\<close>; otherwise the table is left as it was. In particular, of two
  updates with the same client timestamp the one the server received first is the one
  stored, whichever of the two statements runs first.
\<close>

theorem lww_read_state:
  "(\<forall>(tbl :: read_table) (e :: read_row) old. tbl (user_id e, chapter_id e) = Some old \<longrightarrow>
      (snd (upsert_read tbl e) = 1 \<longleftrightarrow>
         updated_at e > updated_at old
         \<or> (updated_at e = updated_at old \<and> server_received_at e < server_received_at old))
      \<and> (snd (upsert_read tbl e) = 1 \<longrightarrow>
           fst (upsert_read tbl e) = tbl((user_id e, chapter_id e) \<mapsto> do_update_set e old)
           \<and> is_read (do_update_set e old) = is_read e
           \<and> updated_at (do_update_set e old) = updated_at e
           \<and> device_id (do_update_set e old) = device_id e
           \<and> source_used_id (do_update_set e old) = source_used_id e
           \<and> server_received_at (do_update_set e old) = server_received_at e)
      \<and> (snd (upsert_read tbl e) \<noteq> 1 \<longrightarrow> fst (upsert_read tbl e) = tbl))
   \<and> (\<forall>(tbl :: read_table) uid lc ts t1 t2 ida idb ra rb sa sb da db.
        tbl (uid, lc) = None \<and> t1 < t2 \<longrightarrow>
        (\<exists>r. apply_two tbl (excluded_row ida uid lc ra ts sa da t1)
                (excluded_row idb uid lc rb ts sb db t2) (uid, lc) = Some r
             \<and> same_state r (excluded_row ida uid lc ra ts sa da t1))
        \<and> (\<exists>r. apply_two tbl (excluded_row idb uid lc rb ts sb db t2)
                (excluded_row ida uid lc ra ts sa da t1) (uid, lc) = Some r
             \<and> same_state r (excluded_row ida uid lc ra ts sa da t1)))"
proof (intro conjI allI impI)
  fix tbl :: read_table and e old :: read_row
  assume h: "tbl (user_id e, chapter_id e) = Some old"
  show "snd (upsert_read tbl e) = 1 \<longleftrightarrow>
         updated_at e > updated_at old
         \<or> (updated_at e = updated_at old \<and> server_received_at e < server_received_at old)"
    using h by (simp add: upsert_read_def lww_where_def)
  show "snd (upsert_read tbl e) \<noteq> 1 \<Longrightarrow> fst (upsert_read tbl e) = tbl"
    using h by (simp add: upsert_read_def split: if_splits)
  assume one: "snd (upsert_read tbl e) = 1"
  then show "fst (upsert_read tbl e) = tbl((user_id e, chapter_id e) \<mapsto> do_update_set e old)"
    using h by (simp add: upsert_read_def split: if_splits)
  show "is_read (do_update_set e old) = is_read e"
    "updated_at (do_update_set e old) = updated_at e"
    "device_id (do_update_set e old) = device_id e"
    "source_used_id (do_update_set e old) = source_used_id e"
    "server_received_at (do_update_set e old) = server_received_at e"
    by (simp_all add: do_update_set_def)
next
  fix tbl :: read_table and uid lc ts t1 t2 ida idb ra rb sa sb da db
  assume h: "tbl (uid, lc) = None \<and> t1 < (t2 :: int)"
  then show "\<exists>r. apply_two tbl (excluded_row ida uid lc ra ts sa da t1)
                (excluded_row idb uid lc rb ts sb db t2) (uid, lc) = Some r
             \<and> same_state r (excluded_row ida uid lc ra ts sa da t1)"
    using tie_first_received_wins(1) [of tbl uid lc t1 t2] by blast
  from h show "\<exists>r. apply_two tbl (excluded_row idb uid lc rb ts sb db t2)
                (excluded_row ida uid lc ra ts sa da t1) (uid, lc) = Some r
             \<and> same_state r (excluded_row ida uid lc ra ts sa da t1)"
    using tie_first_received_wins(2) [of tbl uid lc t1 t2] by blast
qed

theorem lww_read_state_witness:
  "(snd (upsert_read (Map.empty((''u'', ''c'') \<mapsto> row0))
           (excluded_row ''id-1'' ''u'' ''c'' False 100 None (Some ''tablet'') 1001)) \<noteq> 1)
   \<and> (snd (upsert_read (Map.empty((''u'', ''c'') \<mapsto> row0))
           (excluded_row ''id-2'' ''u'' ''c'' False 101 None (Some ''tablet'') 1001)) = 1)
   \<and> (\<exists>r. apply_two Map.empty
             (excluded_row ''id-2'' ''u'' ''c'' False 100 None (Some ''tablet'') 1001)
             row0 (''u'', ''c'') = Some r \<and> same_state r row0)"
proof -
  let ?t = "Map.empty((''u'', ''c'') \<mapsto> row0) :: read_table"
  let ?e1 = "excluded_row ''id-1'' ''u'' ''c'' False 100 None (Some ''tablet'') 1001"
  let ?e2 = "excluded_row ''id-2'' ''u'' ''c'' False 101 None (Some ''tablet'') 1001"
  have k1: "?t (user_id ?e1, chapter_id ?e1) = Some row0"
    by (simp add: excluded_row_def)
  have k2: "?t (user_id ?e2, chapter_id ?e2) = Some row0"
    by (simp add: excluded_row_def)
  have a: "snd (upsert_read ?t ?e1) \<noteq> 1"
    using k1 lww_read_state [THEN conjunct1, rule_format, of ?t ?e1 row0, THEN conjunct1]
    by (simp add: row0_def excluded_row_def)
  have b: "snd (upsert_read ?t ?e2) = 1"
    using k2 lww_read_state [THEN conjunct1, rule_format, of ?t ?e2 row0, THEN conjunct1]
    by (simp add: row0_def excluded_row_def)
  have c: "\<exists>r. apply_two Map.empty
             (excluded_row ''id-2'' ''u'' ''c'' False 100 None (Some ''tablet'') 1001)
             row0 (''u'', ''c'') = Some r \<and> same_state r row0"
    using lww_read_state [THEN conjunct2, rule_format,
        of Map.empty "''u''" "''c''" 1000 1001 "''id-0''" True 100 None "Some ''phone''"
           "''id-2''" False None "Some ''tablet''"]
    by (simp add: row0_def)
  from a b c show ?thesis by blast
qed

section \<open>The follow counter never goes below zero\<close>

lemma clamped_decrement_nonneg: "0 \<le> clamped_decrement n"
  by (simp add: clamped_decrement_def)

lemma decrement_follows_nonneg:
  assumes "\<forall>sid n. series sid = Some n \<longrightarrow> 0 \<le> n"
  shows "\<forall>sid' n. decrement_follows series sid sid' = Some n \<longrightarrow> 0 \<le> n"
  using assms
  by (auto simp: decrement_follows_def clamped_decrement_nonneg split: option.splits if_splits)

lemma remove_tx_nonneg:
  assumes "follows_nonneg db" and "remove_tx w eid uid now db = Inr db'"
  shows "follows_nonneg db'"
proof (cases "find_entry (library_entries db) eid uid")
  case None
  with assms(2) show ?thesis by (simp add: remove_tx_def)
next
  case (Some entry)
  show ?thesis
  proof (cases "entry_series_id entry")
    case None
    with Some assms show ?thesis by (auto simp: remove_tx_def Let_def follows_nonneg_def)
  next
    case (Some sid)
    with \<open>find_entry (library_entries db) eid uid = Some entry\<close> assms(2)
    have "series_total_follows db' = decrement_follows (series_total_follows db) sid"
      by (auto simp: remove_tx_def Let_def)
    with decrement_follows_nonneg [of "series_total_follows db" sid] assms(1)
    show ?thesis by (simp add: follows_nonneg_def)
  qed
qed

lemma run_removal_nonneg:
  assumes "follows_nonneg db" and "run_removal r db = Inr db'"
  shows "follows_nonneg db'"
proof (cases r)
  case (ViaAction uuid_ok user eid now)
  with assms show ?thesis
    by (auto simp: removeFromLibrary_def split: if_splits option.splits dest: remove_tx_nonneg)
next
  case (ViaRoute origin_ok rate_ok user uuid_ok eid now)
  with assms show ?thesis
    by (auto simp: DELETE_library_entry_def split: if_splits option.splits dest: remove_tx_nonneg)
qed

lemma run_removals_nonneg: "follows_nonneg db \<Longrightarrow> follows_nonneg (run_removals rs db)"
proof (induction rs arbitrary: db)
  case Nil
  then show ?case by simp
next
  case (Cons r rs)
  show ?case
  proof (cases "run_removal r db")
    case (Inl e)
    with Cons show ?thesis by simp
  next
    case (Inr db')
    with Cons.prems have "follows_nonneg db'" by (rule run_removal_nonneg)
    with Cons.IH Inr show ?thesis by simp
  qed
qed

lemma run_removal_target:
  assumes "run_removal r db = Inr db'"
  shows "\<exists>w eid uid now e. remove_tx w eid uid now db = Inr db'
           \<and> removal_target r db = Some e \<and> find_entry (library_entries db) eid uid = Some e"
proof (cases r)
  case (ViaAction uuid_ok user eid now)
  with assms obtain uid where u: "user = Some uid"
    and tx: "remove_tx (\<lambda>e. entry_id e = eid) eid uid now db = Inr db'"
    by (auto simp: removeFromLibrary_def split: if_splits option.splits)
  from tx obtain e where "find_entry (library_entries db) eid uid = Some e"
    by (auto simp: remove_tx_def split: option.splits)
  with ViaAction u tx show ?thesis by auto
next
  case (ViaRoute origin_ok rate_ok user uuid_ok eid now)
  with assms obtain uid where u: "user = Some uid"
    and tx: "remove_tx (\<lambda>e. entry_id e = eid \<and> entry_user_id e = uid) eid uid now db = Inr db'"
    by (auto simp: DELETE_library_entry_def split: if_splits option.splits)
  from tx obtain e where "find_entry (library_entries db) eid uid = Some e"
    by (auto simp: remove_tx_def split: option.splits)
  with ViaRoute u tx show ?thesis by auto
qed

lemma run_removal_decrements:
  assumes "run_removal r db = Inr db'"
    and "removal_target r db = Some e" and "entry_series_id e = Some sid"
    and "series_total_follows db sid = Some n"
  shows "series_total_follows db' sid = Some (max 0 (n - 1))"
    and "length (library_entries db') = length (library_entries db)"
proof -
  from run_removal_target [OF assms(1)] assms(2) obtain w eid uid now where
    tx: "remove_tx w eid uid now db = Inr db'"
    and f: "find_entry (library_entries db) eid uid = Some e"
    by auto
  from tx f assms(3,4) show "series_total_follows db' sid = Some (max 0 (n - 1))"
    by (auto simp: remove_tx_def Let_def decrement_follows_def clamped_decrement_def)
  from tx f show "length (library_entries db') = length (library_entries db)"
    by (auto simp: remove_tx_def Let_def soft_delete_entries_def)
qed

text \<open>
  Claim C9. Every removal of a library entry, through the server action or through the
  route, sets the owning series' \<open>total_follows\<close> to \<open>max 0 (total_follows - 1)\<close> in the same
  transaction step that soft-deletes the entry; and when no counter is negative before,
  none is negative after any sequence of removal requests.
\<close>

theorem total_follows_floor_clamp:
  "(\<forall>r db db' e sid n.
      run_removal r db = Inr db' \<and> removal_target r db = Some e
      \<and> entry_series_id e = Some sid \<and> series_total_follows db sid = Some n
      \<longrightarrow> series_total_follows db' sid = Some (max 0 (n - 1))
          \<and> 0 \<le> max 0 (n - 1))
   \<and> (\<forall>rs db sid n.
        follows_nonneg db \<and> series_total_follows (run_removals rs db) sid = Some n \<longrightarrow> 0 \<le> n)"
proof (intro conjI allI impI)
  fix r db db' e sid n
  assume "run_removal r db = Inr db' \<and> removal_target r db = Some e
      \<and> entry_series_id e = Some sid \<and> series_total_follows db sid = Some n"
  then show "series_total_follows db' sid = Some (max 0 (n - 1))"
    using run_removal_decrements(1) [of r db db' e sid n] by blast
  show "0 \<le> max 0 (n - 1)" by simp
next
  fix rs db sid n
  assume h: "follows_nonneg db \<and> series_total_follows (run_removals rs db) sid = Some n"
  then have "follows_nonneg (run_removals rs db)" by (simp add: run_removals_nonneg)
  with h show "0 \<le> n" by (auto simp: follows_nonneg_def)
qed

theorem total_follows_floor_clamp_witness:
  "series_total_follows (run_removals removals0 db0) ''s1'' = Some 0
   \<and> (\<exists>db'. run_removal (ViaAction True (Some ''u1'') ''e1'' 50) db0 = Inr db'
          \<and> series_total_follows db' ''s1'' = Some 0)"
proof -
  have nn: "follows_nonneg db0" by (simp add: follows_nonneg_def db0_def)
  have v: "series_total_follows (run_removals removals0 db0) ''s1'' = Some 0"
    by (simp add: removals0_def db0_def removeFromLibrary_def DELETE_library_entry_def
        remove_tx_def find_entry_def soft_delete_entries_def decrement_follows_def
        clamped_decrement_def Let_def)
  have a: "0 \<le> (0::int)"
    using total_follows_floor_clamp [THEN conjunct2, rule_format, of db0 removals0 "''s1''" 0] nn v
    by blast
  let ?r = "ViaAction True (Some ''u1'') ''e1'' 50"
  let ?e = "\<lparr> entry_id = ''e1'', entry_user_id = ''u1'', entry_series_id = Some ''s1'',
                entry_deleted_at = None \<rparr>"
  obtain db' where r: "run_removal ?r db0 = Inr db'"
    by (simp add: db0_def removeFromLibrary_def remove_tx_def find_entry_def Let_def)
  have t: "removal_target ?r db0 = Some ?e"
    by (simp add: db0_def find_entry_def)
  have "series_total_follows db' ''s1'' = Some (max 0 (1 - 1))"
    using total_follows_floor_clamp [THEN conjunct1, rule_format, of ?r db0 db' ?e "''s1''" 1] r t
    by (simp add: db0_def)
  with r v a show ?thesis by auto
qed

section \<open>The drain pass of the outbox\<close>

lemma fetches_append: "fetches (xs @ ys) = fetches xs @ fetches ys"
  by (induction xs rule: fetches.induct) simp_all

lemma fetches_retry_all: "fetches (retry_all as) = []"
  by (induction as) (simp_all add: retry_all_def)

lemma fetches_results: "fetches (map result_effect results) = []"
  by (induction results) (simp_all add: result_effect_def)

lemma fetches_batch_effects: "fetches (batch_effects resp cr) = []"
  by (cases resp) (simp_all add: fetches_retry_all fetches_results split: option.splits)

lemma serve_all_append: "serve_all srv s (xs @ ys) = serve_all srv (serve_all srv s xs) ys"
  by (induction xs arbitrary: s) simp_all

lemma replay_batch_fetches:
  "fetches (fst (replay_batch srv s cr)) = (if cr = [] then [] else [POST_sync_replay cr])"
  "snd (replay_batch srv s cr) = serve_all srv s (if cr = [] then [] else [POST_sync_replay cr])"
  by (simp_all add: replay_batch_def fetches_batch_effects split: prod.splits)

lemma replay_sequential_fetches:
  "fetches (fst (replay_sequential srv s as))
     = map handler_request (filter (\<lambda>a. retryCount a < MAX_RETRIES) as)
   \<and> snd (replay_sequential srv s as)
     = serve_all srv s (map handler_request (filter (\<lambda>a. retryCount a < MAX_RETRIES) as))"
proof (induction as arbitrary: s)
  case Nil
  then show ?case by simp
next
  case (Cons a as)
  show ?case
  proof (cases "retryCount a \<ge> MAX_RETRIES")
    case True
    with Cons [of s] show ?thesis by (simp add: case_prod_beta)
  next
    case False
    have st: "snd (executeAction srv s a) = snd (srv s (handler_request a))"
      by (simp add: executeAction_def split: prod.splits response.splits)
    from False Cons [of "snd (executeAction srv s a)"] st show ?thesis
      by (simp add: case_prod_beta)
  qed
qed

text \<open>
  Claim C4, amended. A run of \<open>processOutbox\<close> that passes the connectivity guard sorts
  the snapshot of pending actions by client timestamp, ascending. Its network calls are
  then, in this order: one batch request carrying all \<open>CHAPTER_READ\<close> actions
  (none when there is no such action), and one request for every other action whose
  \<open>retryCount\<close> is below \<open>MAX_RETRIES\<close>, in timestamp order, each sent to the server as
  the answer to the one before has left it. A run that fails the guard makes no call.
\<close>

theorem processOutbox_requests:
  "fetches (fst (processOutbox True srv s actions)) =
     (if chapterReadActions actions = [] then []
      else [POST_sync_replay (chapterReadActions actions)])
     @ map handler_request (filter (\<lambda>a. retryCount a < MAX_RETRIES) (otherActions actions))
   \<and> snd (processOutbox True srv s actions)
       = serve_all srv s (fetches (fst (processOutbox True srv s actions)))
   \<and> sorted (map timestamp (sortedActions actions))
   \<and> mset (sortedActions actions) = mset actions
   \<and> sorted (map timestamp (filter (\<lambda>a. retryCount a < MAX_RETRIES) (otherActions actions)))
   \<and> processOutbox False srv s actions = ([], s)"
proof (intro conjI)
  let ?cr = "chapterReadActions actions" and ?ot = "otherActions actions"
  let ?b = "replay_batch srv s ?cr"
  let ?q = "replay_sequential srv (snd ?b) ?ot"
  have empty: "actions = [] \<Longrightarrow> ?cr = [] \<and> ?ot = []"
    by (simp add: chapterReadActions_def otherActions_def sortedActions_def)
  have run: "processOutbox True srv s actions = (fst ?b @ fst ?q, snd ?q)"
  proof (cases "actions = []")
    case True
    with empty show ?thesis by (simp add: processOutbox_def replay_batch_def)
  next
    case False
    then show ?thesis by (simp add: processOutbox_def split: prod.splits)
  qed
  show f: "fetches (fst (processOutbox True srv s actions)) =
     (if ?cr = [] then [] else [POST_sync_replay ?cr])
     @ map handler_request (filter (\<lambda>a. retryCount a < MAX_RETRIES) ?ot)"
    by (simp add: run fetches_append replay_batch_fetches replay_sequential_fetches)
  show "snd (processOutbox True srv s actions)
       = serve_all srv s (fetches (fst (processOutbox True srv s actions)))"
    unfolding f by (simp add: run serve_all_append replay_batch_fetches replay_sequential_fetches)
  show "sorted (map timestamp (sortedActions actions))"
    by (simp add: sortedActions_def)
  show "mset (sortedActions actions) = mset actions"
    by (simp add: sortedActions_def)
  show "sorted (map timestamp (filter (\<lambda>a. retryCount a < MAX_RETRIES) ?ot))"
    by (simp add: otherActions_def sortedActions_def sorted_filter)
  show "processOutbox False srv s actions = ([], s)"
    by (simp add: processOutbox_def)
qed

lemma marked_simps:
  "marked_success ((i, st) # rest) a \<longleftrightarrow> (action_id a = i \<and> st = ''success'') \<or> marked_success rest a"
  "marked_failure ((i, st) # rest) a \<longleftrightarrow> (action_id a = i \<and> st \<noteq> ''success'') \<or> marked_failure rest a"
  by (auto simp: marked_success_def marked_failure_def)

lemma marked_retry [simp]:
  "marked_success rs (a\<lparr>retryCount := n\<rparr>) = marked_success rs a"
  "marked_failure rs (a\<lparr>retryCount := n\<rparr>) = marked_failure rs a"
  by (simp_all add: marked_success_def marked_failure_def)

lemma not_listed: "i \<notin> fst ` set rest \<Longrightarrow> action_id a = i \<Longrightarrow> \<not> marked_failure rest a \<and> \<not> marked_success rest a"
  by (force simp: marked_success_def marked_failure_def)

lemma outbox_after_results:
  "distinct (map fst results) \<Longrightarrow>
   outbox_after (map result_effect results) outbox =
     map (\<lambda>a. if marked_failure results a then a\<lparr>retryCount := retryCount a + 1\<rparr> else a)
       (filter (\<lambda>a. \<not> marked_success results a) outbox)"
proof (induction results arbitrary: outbox)
  case Nil
  then show ?case by (simp add: marked_success_def marked_failure_def)
next
  case (Cons r rest)
  obtain i st where r: "r = (i, st)" by (cases r)
  from Cons.prems r have d: "distinct (map fst rest)" and ni: "i \<notin> fst ` set rest" by auto
  show ?case
  proof (cases "st = ''success''")
    case True
    then show ?thesis
      using Cons.IH [OF d, of "dequeue i outbox"] r
      by (auto simp: result_effect_def dequeue_def marked_simps intro!: filter_cong)
  next
    case False
    let ?keep = "\<lambda>a. \<not> marked_success rest a"
    have A: "filter ?keep (updateRetry i outbox) = updateRetry i (filter ?keep outbox)"
      by (induction outbox) (simp_all add: updateRetry_def)
    have B: "map (\<lambda>a. if marked_failure rest a then a\<lparr>retryCount := retryCount a + 1\<rparr> else a)
               (updateRetry i xs)
             = map (\<lambda>a. if marked_failure (r # rest) a then a\<lparr>retryCount := retryCount a + 1\<rparr>
                        else a) xs" for xs
      using False not_listed [OF ni] by (simp add: updateRetry_def r marked_simps)
    have C: "filter (\<lambda>a. \<not> marked_success (r # rest) a) outbox = filter ?keep outbox"
      using False by (simp add: r marked_simps)
    have "outbox_after (map result_effect (r # rest)) outbox
            = outbox_after (map result_effect rest) (updateRetry i outbox)"
      using False by (simp add: r result_effect_def)
    also have "\<dots> = map (\<lambda>a. if marked_failure rest a then a\<lparr>retryCount := retryCount a + 1\<rparr> else a)
                      (updateRetry i (filter ?keep outbox))"
      by (simp add: Cons.IH [OF d] A)
    finally show ?thesis by (simp only: B C)
  qed
qed

text \<open>
  Claim C3 (the code departs from it). The retry ceiling guards only the sequential loop:
  a \<open>CHAPTER_READ\<close> action whose \<open>retryCount\<close> is 5 is still part of the batch request.
\<close>

theorem exhausted_chapter_read_still_sent:
  "MAX_RETRIES \<le> retryCount (mk_action ''a1'' CHAPTER_READ 10 5)
   \<and> fetches (fst (processOutbox True always_ok () [mk_action ''a1'' CHAPTER_READ 10 5]))
       = [POST_sync_replay [mk_action ''a1'' CHAPTER_READ 10 5]]"
  by (simp add: processOutbox_def chapterReadActions_def otherActions_def sortedActions_def
      replay_batch_def mk_action_def MAX_RETRIES_def result_effect_def response_ok_def)

text \<open>
  Claim C4 as stated, "every other action is replayed", fails: an action of another type
  whose \<open>retryCount\<close> has reached the ceiling is in the snapshot and is not replayed.
\<close>

theorem exhausted_action_not_replayed:
  "otherActions [mk_action ''a1'' LIBRARY_UPDATE 10 5] = [mk_action ''a1'' LIBRARY_UPDATE 10 5]
   \<and> fetches (fst (processOutbox True always_ok () [mk_action ''a1'' LIBRARY_UPDATE 10 5])) = []"
  by (simp add: processOutbox_def chapterReadActions_def otherActions_def sortedActions_def
      replay_batch_def mk_action_def MAX_RETRIES_def)

theorem processOutbox_requests_witness:
  "fetches (fst (processOutbox True always_ok () snapshot0)) =
     [POST_sync_replay [mk_action ''a4'' CHAPTER_READ 5 0, mk_action ''a2'' CHAPTER_READ 20 0],
      PATCH_library (mk_action ''a3'' LIBRARY_UPDATE 10 4),
      POST_library (mk_action ''a1'' LIBRARY_ADD 30 0)]"
  using processOutbox_requests [of always_ok "()" snapshot0]
  by (simp add: snapshot0_def chapterReadActions_def otherActions_def sortedActions_def
      mk_action_def MAX_RETRIES_def handler_request_def)

text \<open>
  Claim C5. When the batch endpoint answers with a status per item (\<open>response.ok\<close>, a
  \<open>results\<close> array naming no id twice), the outbox afterwards is the outbox before
  without the items marked \<open>success\<close> and with the \<open>retryCount\<close> of each item marked
  otherwise raised by exactly one; an item the response does not name is left as it was.
  What happens to one item depends on its own mark alone.
\<close>

theorem batch_partial_failure:
  assumes "cr \<noteq> []"
    and "srv s (POST_sync_replay cr) = (HttpResponse status (Some results), s')"
    and "response_ok status"
    and "distinct (map fst results)"
  shows "outbox_after (fst (replay_batch srv s cr)) outbox =
           map (\<lambda>a. if marked_failure results a then a\<lparr>retryCount := retryCount a + 1\<rparr> else a)
             (filter (\<lambda>a. \<not> marked_success results a) outbox)
         \<and> (\<forall>a \<in> set outbox. marked_success results a \<longrightarrow>
               action_id a \<notin> action_id ` set (outbox_after (fst (replay_batch srv s cr)) outbox))
         \<and> (\<forall>a \<in> set outbox. marked_failure results a \<longrightarrow>
               a\<lparr>retryCount := retryCount a + 1\<rparr>
                 \<in> set (outbox_after (fst (replay_batch srv s cr)) outbox))
         \<and> (\<forall>a \<in> set outbox. \<not> marked_success results a \<and> \<not> marked_failure results a \<longrightarrow>
               a \<in> set (outbox_after (fst (replay_batch srv s cr)) outbox))"
proof -
  let ?out = "outbox_after (fst (replay_batch srv s cr)) outbox"
  have excl: "marked_failure results a \<Longrightarrow> \<not> marked_success results a" for a
    using assms(4) by (auto simp: marked_failure_def marked_success_def dest: eq_key_imp_eq_value)
  have eq: "?out =
           map (\<lambda>a. if marked_failure results a then a\<lparr>retryCount := retryCount a + 1\<rparr> else a)
             (filter (\<lambda>a. \<not> marked_success results a) outbox)"
    using assms by (simp add: replay_batch_def outbox_after_results)
  have 1: "\<forall>a \<in> set outbox. marked_success results a \<longrightarrow> action_id a \<notin> action_id ` set ?out"
  proof (intro ballI impI notI)
    fix a
    assume "marked_success results a" and "action_id a \<in> action_id ` set ?out"
    then obtain b where "\<not> marked_success results b" and "action_id b = action_id a"
      unfolding eq by (auto split: if_splits)
    with \<open>marked_success results a\<close> show False by (simp add: marked_success_def)
  qed
  have 2: "\<forall>a \<in> set outbox. marked_failure results a \<longrightarrow>
               a\<lparr>retryCount := retryCount a + 1\<rparr> \<in> set ?out"
    unfolding eq using excl by (auto simp: image_iff intro!: bexI)
  have 3: "\<forall>a \<in> set outbox. \<not> marked_success results a \<and> \<not> marked_failure results a \<longrightarrow>
               a \<in> set ?out"
    unfolding eq by (auto simp: image_iff intro!: bexI)
  from eq 1 2 3 show ?thesis by blast
qed

theorem batch_partial_failure_witness:
  "outbox_after (fst (replay_batch second_fails () outbox3)) outbox3
     = [mk_action ''a2'' CHAPTER_READ 2 1]
   \<and> outbox_after (fst (processOutbox True second_fails () outbox3)) outbox3
     = [mk_action ''a2'' CHAPTER_READ 2 1]"
proof -
  have ne: "outbox3 \<noteq> []" by (simp add: outbox3_def)
  have resp: "second_fails () (POST_sync_replay outbox3)
     = (HttpResponse 200
         (Some [(''a1'', ''success''), (''a2'', ''failure''), (''a3'', ''success'')]), ())"
    by simp
  have ok: "response_ok 200" by (simp add: response_ok_def)
  have d: "distinct (map fst [(''a1'', ''success''), (''a2'', ''failure''), (''a3'', ''success'')])"
    by simp
  have a: "outbox_after (fst (replay_batch second_fails () outbox3)) outbox3
     = [mk_action ''a2'' CHAPTER_READ 2 1]"
    using ne resp ok d
      batch_partial_failure [of outbox3 second_fails "()" 200
        "[(''a1'', ''success''), (''a2'', ''failure''), (''a3'', ''success'')]" "()" outbox3,
        THEN conjunct1]
    by (simp add: outbox3_def mk_action_def marked_success_def marked_failure_def)
  have "processOutbox True second_fails () outbox3
          = replay_batch second_fails () outbox3"
    by (simp add: processOutbox_def chapterReadActions_def otherActions_def sortedActions_def
        outbox3_def mk_action_def split: prod.splits)
  with a show ?thesis by simp
qed

text \<open>
  Claim C6 (the code departs from it). \<open>handleLibraryAdd\<close> returns \<open>response.ok\<close> alone:
  a 409 answer to a replayed \<open>LIBRARY_ADD\<close> is a failure, and the action is kept with its
  retry count raised, not dequeued.
\<close>

theorem library_add_conflict_counts_as_failure:
  "fst (processOutbox True always_conflict () [mk_action ''a1'' LIBRARY_ADD 10 0])
     = [Fetch (POST_library (mk_action ''a1'' LIBRARY_ADD 10 0)), UpdateRetry ''a1'']
   \<and> handler_result CHAPTER_READ 409 \<and> \<not> handler_result LIBRARY_ADD 409"
  by (simp add: processOutbox_def chapterReadActions_def otherActions_def sortedActions_def
      replay_batch_def mk_action_def MAX_RETRIES_def executeAction_def handler_request_def
      response_ok_def)



section \<open>Soft delete through the database client\<close>

lemma spread_simps [simp]: "spread None = Map.empty" "spread (Some m) = m"
  by (simp_all add: spread_def)

lemma matches_not_deleted_iff:
  "matches (where_not_deleted w) r
     \<longleftrightarrow> live r \<and> matches ((spread w)(''deleted_at'' := None)) r"
proof
  assume m: "matches (where_not_deleted w) r"
  then have "holds r ''deleted_at'' (Equals Null)"
    unfolding matches_def where_not_deleted_def by (drule_tac x = "''deleted_at''" in spec) simp
  moreover have "matches ((spread w)(''deleted_at'' := None)) r"
    unfolding matches_def
  proof (intro allI impI)
    fix k c
    assume "((spread w)(''deleted_at'' := None)) k = Some c"
    then have "k \<noteq> ''deleted_at''" and "spread w k = Some c"
      by (auto split: if_splits)
    with m show "holds r k c"
      unfolding matches_def where_not_deleted_def by simp
  qed
  ultimately show "live r \<and> matches ((spread w)(''deleted_at'' := None)) r"
    by (simp add: live_def)
next
  assume a: "live r \<and> matches ((spread w)(''deleted_at'' := None)) r"
  show "matches (where_not_deleted w) r"
    unfolding matches_def where_not_deleted_def
  proof (intro allI impI)
    fix k c
    assume h: "((spread w)(''deleted_at'' \<mapsto> Equals Null)) k = Some c"
    show "holds r k c"
    proof (cases "k = ''deleted_at''")
      case True
      with h a show ?thesis by (auto simp: live_def)
    next
      case False
      with h have "((spread w)(''deleted_at'' := None)) k = Some c" by simp
      with a show ?thesis unfolding matches_def by blast
    qed
  qed
qed

lemma matches_not_deleted: "matches (where_not_deleted w) r \<Longrightarrow> live r"
  by (simp add: matches_not_deleted_iff)

lemma find_in_set: "find P xs = Some x \<Longrightarrow> x \<in> set xs \<and> P x"
  by (auto simp: find_Some_iff)

lemma query_read:
  assumes "operation \<in> set read_operations"
  shows "snd (query operation a tbl) = tbl"
    and "set (returned (fst (query operation a tbl)))
           \<subseteq> {r \<in> set tbl. matches (spread (where_arg a)) r}"
proof -
  from assms consider "operation = FindUnique" | "operation = FindUniqueOrThrow"
    | "operation = FindFirst" | "operation = FindFirstOrThrow" | "operation = FindMany"
    | "operation = CountRows" | "operation = Aggregate" | "operation = GroupBy"
    by (auto simp: read_operations_def)
  then show "snd (query operation a tbl) = tbl"
    by cases (simp_all split: option.splits)
  from assms consider "operation = FindUnique" | "operation = FindUniqueOrThrow"
    | "operation = FindFirst" | "operation = FindFirstOrThrow" | "operation = FindMany"
    | "operation = CountRows" | "operation = Aggregate" | "operation = GroupBy"
    by (auto simp: read_operations_def)
  then show "set (returned (fst (query operation a tbl)))
           \<subseteq> {r \<in> set tbl. matches (spread (where_arg a)) r}"
  proof cases
    case 1
    then show ?thesis
      by (cases "find (matches (spread (where_arg a))) tbl") (auto dest: find_in_set)
  next
    case 2
    then show ?thesis
      by (cases "find (matches (spread (where_arg a))) tbl") (auto dest: find_in_set)
  next
    case 3
    then show ?thesis
      by (cases "find (matches (spread (where_arg a))) tbl") (auto dest: find_in_set)
  next
    case 4
    then show ?thesis
      by (cases "find (matches (spread (where_arg a))) tbl") (auto dest: find_in_set)
  qed simp_all
qed

lemma allOperations_read:
  assumes "model \<in> set SOFT_DELETE_MODELS" and "operation \<in> set read_operations"
  shows "allOperations model operation a now db =
           (fst (query operation (a\<lparr>where_arg := Some (where_not_deleted (where_arg a))\<rparr>) (db model)),
            db)"
proof -
  let ?a = "a\<lparr>where_arg := Some (where_not_deleted (where_arg a))\<rparr>"
  from assms(2) have no: "operation \<noteq> Delete" "operation \<noteq> DeleteMany" "operation \<noteq> Update"
    "operation \<noteq> UpdateMany" "operation \<noteq> Upsert"
    by (auto simp: read_operations_def)
  have "allOperations model operation a now db =
          (case query operation ?a (db model) of (res, tbl) \<Rightarrow> (res, db(model := tbl)))"
    using assms no by (simp add: allOperations_def Let_def)
  also have "\<dots> = (fst (query operation ?a (db model)), db)"
    using query_read(1) [OF assms(2), of ?a "db model"] by (simp add: case_prod_beta)
  finally show ?thesis .
qed

lemma reads_only_live:
  assumes "model \<in> set SOFT_DELETE_MODELS" and "operation \<in> set read_operations"
  shows "snd (allOperations model operation a now db) = db"
    and "\<forall>r \<in> set (returned (fst (allOperations model operation a now db))).
           r \<in> set (db model) \<and> live r"
proof -
  let ?a = "a\<lparr>where_arg := Some (where_not_deleted (where_arg a))\<rparr>"
  show "snd (allOperations model operation a now db) = db"
    by (simp add: allOperations_read [OF assms])
  show "\<forall>r \<in> set (returned (fst (allOperations model operation a now db))).
           r \<in> set (db model) \<and> live r"
    using query_read(2) [OF assms(2), of ?a "db model"]
    by (auto simp: allOperations_read [OF assms] dest: matches_not_deleted)
qed

lemma count_only_live:
  assumes "model \<in> set SOFT_DELETE_MODELS"
  shows "fst (allOperations model CountRows a now db) =
           Counted (length (filter (\<lambda>r. live r \<and> matches ((spread (where_arg a))(''deleted_at'' := None)) r)
                              (db model)))"
proof -
  have m: "matches (where_not_deleted (where_arg a))
             = (\<lambda>r. live r \<and> matches ((spread (where_arg a))(''deleted_at'' := None)) r)"
    by (rule ext) (rule matches_not_deleted_iff)
  have "CountRows \<in> set read_operations" by (simp add: read_operations_def)
  from allOperations_read [OF assms this] show ?thesis by (simp add: m)
qed


text \<open>Deletes.\<close>

lemma update_first_length [simp]: "length (update_first P f tbl) = length tbl"
  by (induction tbl) simp_all

lemma update_first_rel:
  "list_all2 (\<lambda>r r'. r' = r \<or> r' = f r) tbl (update_first P f tbl)"
  by (induction tbl) (simp_all add: list.rel_refl)

lemma map_if_rel:
  "list_all2 (\<lambda>r r'. r' = r \<or> r' = f r) tbl (map (\<lambda>r. if P r then f r else r) tbl)"
  by (induction tbl) simp_all

lemma allOperations_delete:
  assumes "model \<in> set SOFT_DELETE_MODELS"
  shows "allOperations model Delete a now db =
           (case query Update (a\<lparr>data_arg := Some (Map.empty(''deleted_at'' \<mapsto> Date now))\<rparr>) (db model)
            of (res, tbl) \<Rightarrow> (res, db(model := tbl)))"
    and "allOperations model DeleteMany a now db =
           (case query UpdateMany (a\<lparr>data_arg := Some (Map.empty(''deleted_at'' \<mapsto> Date now))\<rparr>) (db model)
            of (res, tbl) \<Rightarrow> (res, db(model := tbl)))"
  using assms by (simp_all add: allOperations_def Let_def read_operations_def)

lemma query_Update_rel:
  "list_all2 (\<lambda>r r'. r' = r \<or> r' = r ++ spread (data_arg a)) tbl (snd (query Update a tbl))"
proof (cases "where_arg a")
  case None
  then show ?thesis by (simp add: list.rel_refl)
next
  case (Some w)
  show ?thesis
  proof (cases "find (matches w) tbl")
    case None
    with Some show ?thesis by (simp add: list.rel_refl)
  next
    case (Some r)
    with \<open>where_arg a = Some w\<close> show ?thesis by (simp add: update_first_rel)
  qed
qed

lemma query_UpdateMany_rel:
  "list_all2 (\<lambda>r r'. r' = r \<or> r' = r ++ spread (data_arg a)) tbl (snd (query UpdateMany a tbl))"
  by (simp add: map_if_rel)

lemma deletes_keep_rows:
  assumes "model \<in> set SOFT_DELETE_MODELS" and "operation = Delete \<or> operation = DeleteMany"
  shows "list_all2 (\<lambda>r r'. r' = r \<or> r' = r(''deleted_at'' \<mapsto> Date now))
           (db model) (snd (allOperations model operation a now db) model)"
    and "\<forall>m. m \<noteq> model \<longrightarrow> snd (allOperations model operation a now db) m = db m"
proof -
  let ?a = "a\<lparr>data_arg := Some (Map.empty(''deleted_at'' \<mapsto> Date now))\<rparr>"
  have d: "(\<lambda>r r'. r' = r \<or> r' = r ++ spread (data_arg ?a))
             = (\<lambda>(r::row) r'. r' = r \<or> r' = r(''deleted_at'' \<mapsto> Date now))"
    by simp
  show "list_all2 (\<lambda>r r'. r' = r \<or> r' = r(''deleted_at'' \<mapsto> Date now))
           (db model) (snd (allOperations model operation a now db) model)"
  proof (cases "operation = Delete")
    case True
    with query_Update_rel [of ?a "db model"] show ?thesis
      unfolding d by (simp add: allOperations_delete [OF assms(1)] case_prod_beta)
  next
    case False
    with assms(2) have "operation = DeleteMany" by simp
    with query_UpdateMany_rel [of ?a "db model"] show ?thesis
      unfolding d by (simp add: allOperations_delete [OF assms(1)] case_prod_beta)
  qed
  show "\<forall>m. m \<noteq> model \<longrightarrow> snd (allOperations model operation a now db) m = db m"
    using assms(2) by (auto simp: allOperations_delete [OF assms(1)] case_prod_beta)
qed


text \<open>Updates.\<close>

lemma update_deleted_fails:
  assumes "model \<in> set SOFT_DELETE_MODELS" and "where_arg a = Some w"
    and "\<forall>r \<in> set (db model). matches (w(''deleted_at'' := None)) r \<longrightarrow> \<not> live r"
  shows "allOperations model Update a now db = (Failed RecordNotFound, db)"
proof -
  let ?a = "a\<lparr>where_arg := Some (where_not_deleted (Some w))\<rparr>"
  have "\<not> (\<exists>r \<in> set (db model). matches (where_not_deleted (Some w)) r)"
    using assms(3) by (auto simp: matches_not_deleted_iff)
  then have none: "find (matches (where_not_deleted (Some w))) (db model) = None"
    by (simp add: find_None_iff)
  have q: "query Update ?a (db model) = (Failed RecordNotFound, db model)"
    by (simp add: none)
  have "allOperations model Update a now db =
      (case query Update ?a (db model) of (res, tbl) \<Rightarrow> (res, db(model := tbl)))"
    using assms(1,2) by (simp add: allOperations_def Let_def read_operations_def)
  then show ?thesis unfolding q by simp
qed

text \<open>Upserts.\<close>

lemma update_first_mem: "find P tbl = Some r \<Longrightarrow> f r \<in> set (update_first P f tbl)"
  by (induction tbl) (auto split: if_splits)

lemma upsert_resurrects:
  assumes "model \<in> set SOFT_DELETE_MODELS" and "where_arg a = Some w"
    and "find (matches w) (db model) = Some r"
  shows "fst (allOperations model Upsert a now db)
           = Found (Some (r ++ (spread (update_arg a))(''deleted_at'' \<mapsto> Null)))"
    and "live (r ++ (spread (update_arg a))(''deleted_at'' \<mapsto> Null))"
    and "r ++ (spread (update_arg a))(''deleted_at'' \<mapsto> Null)
           \<in> set (snd (allOperations model Upsert a now db) model)"
proof -
  let ?u = "(spread (update_arg a))(''deleted_at'' \<mapsto> Null)"
  let ?a = "a\<lparr>update_arg := Some ?u\<rparr>"
  have run: "allOperations model Upsert a now db =
      (case query Upsert ?a (db model) of (res, tbl) \<Rightarrow> (res, db(model := tbl)))"
    using assms(1) by (simp add: allOperations_def Let_def read_operations_def)
  have q: "query Upsert ?a (db model) =
      (Found (Some (r ++ ?u)), update_first (matches w) (\<lambda>r. r ++ ?u) (db model))"
    using assms(2,3) by simp
  show "fst (allOperations model Upsert a now db) = Found (Some (r ++ ?u))"
    unfolding run q by simp
  show "live (r ++ ?u)"
    by (simp add: live_def field_def)
  show "r ++ ?u \<in> set (snd (allOperations model Upsert a now db) model)"
    using update_first_mem [OF assms(3), of "\<lambda>r. r ++ ?u"] unfolding run q by simp
qed

lemma delete_stamps:
  assumes "model \<in> set SOFT_DELETE_MODELS" and "where_arg a = Some w"
    and "find (matches w) (db model) = Some r"
  shows "fst (allOperations model Delete a now db) = Found (Some (r(''deleted_at'' \<mapsto> Date now)))"
    and "r(''deleted_at'' \<mapsto> Date now) \<in> set (snd (allOperations model Delete a now db) model)"
proof -
  let ?a = "a\<lparr>data_arg := Some (Map.empty(''deleted_at'' \<mapsto> Date now))\<rparr>"
  have q: "query Update ?a (db model) =
      (Found (Some (r(''deleted_at'' \<mapsto> Date now))),
       update_first (matches w) (\<lambda>r. r(''deleted_at'' \<mapsto> Date now)) (db model))"
    using assms(2,3) by simp
  show "fst (allOperations model Delete a now db) = Found (Some (r(''deleted_at'' \<mapsto> Date now)))"
    unfolding allOperations_delete(1) [OF assms(1)] q by simp
  show "r(''deleted_at'' \<mapsto> Date now) \<in> set (snd (allOperations model Delete a now db) model)"
    using update_first_mem [OF assms(3), of "\<lambda>r. r(''deleted_at'' \<mapsto> Date now)"]
    unfolding allOperations_delete(1) [OF assms(1)] q by simp
qed

lemma deleteMany_stamps:
  assumes "model \<in> set SOFT_DELETE_MODELS"
  shows "snd (allOperations model DeleteMany a now db) model =
           map (\<lambda>r. if matches (spread (where_arg a)) r then r(''deleted_at'' \<mapsto> Date now) else r)
             (db model)"
  unfolding allOperations_delete(2) [OF assms] by (simp add: case_prod_beta cong: if_cong)

text \<open>
  Claim C10. For each of the models \<open>User\<close>, \<open>Series\<close>, \<open>Chapter\<close>, \<open>LibraryEntry\<close>:
  a \<open>delete\<close> or \<open>deleteMany\<close> through the client removes no row, it sets \<open>deleted_at\<close> to
  the current time on the rows it selects and leaves every other row and table as it was;
  every read operation leaves the database alone and returns, counts or aggregates only
  rows of the table whose \<open>deleted_at\<close> is null; an \<open>update\<close> whose \<open>where\<close> selects only
  soft-deleted rows matches nothing and fails with record-not-found; and an \<open>upsert\<close>
  whose \<open>where\<close> finds a row, soft-deleted or not, updates it and leaves its \<open>deleted_at\<close>
  null.
\<close>

theorem soft_delete_extension:
  assumes "model \<in> set SOFT_DELETE_MODELS"
  shows "(operation = Delete \<or> operation = DeleteMany \<longrightarrow>
            list_all2 (\<lambda>r r'. r' = r \<or> r' = r(''deleted_at'' \<mapsto> Date now))
              (db model) (snd (allOperations model operation a now db) model)
            \<and> (\<forall>m. m \<noteq> model \<longrightarrow> snd (allOperations model operation a now db) m = db m))
       \<and> (\<forall>w r. where_arg a = Some w \<and> find (matches w) (db model) = Some r \<longrightarrow>
            fst (allOperations model Delete a now db) = Found (Some (r(''deleted_at'' \<mapsto> Date now)))
            \<and> r(''deleted_at'' \<mapsto> Date now) \<in> set (snd (allOperations model Delete a now db) model))
       \<and> snd (allOperations model DeleteMany a now db) model =
            map (\<lambda>r. if matches (spread (where_arg a)) r then r(''deleted_at'' \<mapsto> Date now) else r)
              (db model)
       \<and> (operation \<in> set read_operations \<longrightarrow>
            snd (allOperations model operation a now db) = db
            \<and> (\<forall>r \<in> set (returned (fst (allOperations model operation a now db))).
                  r \<in> set (db model) \<and> live r))
       \<and> fst (allOperations model CountRows a now db) =
            Counted (length (filter
              (\<lambda>r. live r \<and> matches ((spread (where_arg a))(''deleted_at'' := None)) r) (db model)))
       \<and> (\<forall>w. where_arg a = Some w
              \<and> (\<forall>r \<in> set (db model). matches (w(''deleted_at'' := None)) r \<longrightarrow> \<not> live r) \<longrightarrow>
            allOperations model Update a now db = (Failed RecordNotFound, db))
       \<and> (\<forall>w r. where_arg a = Some w \<and> find (matches w) (db model) = Some r \<longrightarrow>
            fst (allOperations model Upsert a now db)
              = Found (Some (r ++ (spread (update_arg a))(''deleted_at'' \<mapsto> Null)))
            \<and> live (r ++ (spread (update_arg a))(''deleted_at'' \<mapsto> Null))
            \<and> r ++ (spread (update_arg a))(''deleted_at'' \<mapsto> Null)
                 \<in> set (snd (allOperations model Upsert a now db) model))"
proof (intro conjI impI allI)
  assume d: "operation = Delete \<or> operation = DeleteMany"
  show "list_all2 (\<lambda>r r'. r' = r \<or> r' = r(''deleted_at'' \<mapsto> Date now))
              (db model) (snd (allOperations model operation a now db) model)"
    by (rule deletes_keep_rows(1) [OF assms d])
  fix m assume "m \<noteq> model"
  then show "snd (allOperations model operation a now db) m = db m"
    using deletes_keep_rows(2) [OF assms d] by blast
next
  fix w r
  assume h: "where_arg a = Some w \<and> find (matches w) (db model) = Some r"
  then show "fst (allOperations model Delete a now db)
               = Found (Some (r(''deleted_at'' \<mapsto> Date now)))"
    using delete_stamps(1) [OF assms, of a w db r now] by blast
  from h show "r(''deleted_at'' \<mapsto> Date now)
                 \<in> set (snd (allOperations model Delete a now db) model)"
    using delete_stamps(2) [OF assms, of a w db r now] by blast
next
  show "snd (allOperations model DeleteMany a now db) model =
            map (\<lambda>r. if matches (spread (where_arg a)) r then r(''deleted_at'' \<mapsto> Date now) else r)
              (db model)"
    by (rule deleteMany_stamps [OF assms])
next
  assume rd: "operation \<in> set read_operations"
  show "snd (allOperations model operation a now db) = db"
    by (rule reads_only_live(1) [OF assms rd])
  show "\<forall>r \<in> set (returned (fst (allOperations model operation a now db))).
                  r \<in> set (db model) \<and> live r"
    by (rule reads_only_live(2) [OF assms rd])
next
  show "fst (allOperations model CountRows a now db) =
            Counted (length (filter
              (\<lambda>r. live r \<and> matches ((spread (where_arg a))(''deleted_at'' := None)) r) (db model)))"
    by (rule count_only_live [OF assms])
next
  fix w
  assume "where_arg a = Some w
              \<and> (\<forall>r \<in> set (db model). matches (w(''deleted_at'' := None)) r \<longrightarrow> \<not> live r)"
  then show "allOperations model Update a now db = (Failed RecordNotFound, db)"
    using update_deleted_fails [OF assms, of a w db now] by blast
next
  fix w r
  assume h: "where_arg a = Some w \<and> find (matches w) (db model) = Some r"
  let ?r' = "r ++ (spread (update_arg a))(''deleted_at'' \<mapsto> Null)"
  from h show "fst (allOperations model Upsert a now db) = Found (Some ?r')"
    using upsert_resurrects(1) [OF assms, of a w db r now] by blast
  show "live ?r'" by (simp add: live_def field_def)
  from h show "?r' \<in> set (snd (allOperations model Upsert a now db) model)"
    using upsert_resurrects(3) [OF assms, of a w db r now] by blast
qed

lemma matches_single: "matches [k \<mapsto> c] r = holds r k c"
  by (auto simp: matches_def split: if_splits)

theorem soft_delete_extension_witness:
  "fst (allOperations ''LibraryEntry'' Delete (by_id ''e1'') 100 entries0)
     = Found (Some (e_live(''deleted_at'' \<mapsto> Date 100)))
   \<and> e_gone \<notin> set (returned (fst (allOperations ''LibraryEntry'' FindMany no_args 100 entries0)))
   \<and> fst (allOperations ''LibraryEntry'' CountRows (by_id ''e2'') 100 entries0) = Counted 0
   \<and> allOperations ''LibraryEntry'' Update (by_id ''e2'') 100 entries0
       = (Failed RecordNotFound, entries0)
   \<and> fst (allOperations ''LibraryEntry'' Upsert (by_id ''e2'') 100 entries0)
       = Found (Some (e_gone(''deleted_at'' \<mapsto> Null)))
   \<and> snd (allOperations ''LibraryEntry'' DeleteMany (by_id ''e1'') 100 entries0) ''LibraryEntry''
       = [e_live(''deleted_at'' \<mapsto> Date 100), e_gone]
   \<and> snd (allOperations ''LibraryEntry'' DeleteMany (by_id ''e1'') 100 entries0) ''Series''
       = entries0 ''Series''"
proof -
  have m: "''LibraryEntry'' \<in> set SOFT_DELETE_MODELS"
    by (simp add: SOFT_DELETE_MODELS_def)
  have tbl: "entries0 ''LibraryEntry'' = [e_live, e_gone]"
    by (simp add: entries0_def)
  have id1: "field e_live ''id'' = Str ''e1''" and id2: "field e_gone ''id'' = Str ''e2''"
    by (simp_all add: e_live_def e_gone_def field_def)
  have lv: "live e_live" "\<not> live e_gone"
    by (simp_all add: live_def e_live_def e_gone_def field_def)
  have f1: "where_arg (by_id ''e1'') = Some [''id'' \<mapsto> Equals (Str ''e1'')]
            \<and> find (matches [''id'' \<mapsto> Equals (Str ''e1'')]) (entries0 ''LibraryEntry'') = Some e_live"
    by (simp add: by_id_def tbl matches_single id1 id2)
  have f2: "where_arg (by_id ''e2'') = Some [''id'' \<mapsto> Equals (Str ''e2'')]
            \<and> find (matches [''id'' \<mapsto> Equals (Str ''e2'')]) (entries0 ''LibraryEntry'') = Some e_gone"
    by (simp add: by_id_def tbl matches_single id1 id2)
  have D: "fst (allOperations ''LibraryEntry'' Delete (by_id ''e1'') 100 entries0)
     = Found (Some (e_live(''deleted_at'' \<mapsto> Date 100)))"
    using soft_delete_extension [OF m, of Delete 100 entries0 "by_id ''e1''"] f1 by blast
  have "FindMany \<in> set read_operations" by (simp add: read_operations_def)
  with soft_delete_extension [OF m, of FindMany 100 entries0 no_args]
  have "\<forall>r \<in> set (returned (fst (allOperations ''LibraryEntry'' FindMany no_args 100 entries0))).
          live r" by blast
  with lv(2) have R: "e_gone \<notin> set (returned (fst (allOperations ''LibraryEntry'' FindMany no_args 100 entries0)))"
    by blast
  from soft_delete_extension [OF m, of CountRows 100 entries0 "by_id ''e2''"]
  have "fst (allOperations ''LibraryEntry'' CountRows (by_id ''e2'') 100 entries0) =
          Counted (length (filter
            (\<lambda>r. live r \<and> matches ((spread (where_arg (by_id ''e2'')))(''deleted_at'' := None)) r)
            (entries0 ''LibraryEntry'')))"
    by blast
  then have C: "fst (allOperations ''LibraryEntry'' CountRows (by_id ''e2'') 100 entries0) = Counted 0"
    by (simp add: tbl by_id_def matches_single id1 id2 lv)
  have "\<forall>r \<in> set (entries0 ''LibraryEntry'').
          matches ([''id'' \<mapsto> Equals (Str ''e2'')](''deleted_at'' := None)) r \<longrightarrow> \<not> live r"
    by (simp add: tbl matches_single id1 id2 lv)
  with f2 soft_delete_extension [OF m, of Update 100 entries0 "by_id ''e2''"]
  have U: "allOperations ''LibraryEntry'' Update (by_id ''e2'') 100 entries0
       = (Failed RecordNotFound, entries0)" by blast
  have "fst (allOperations ''LibraryEntry'' Upsert (by_id ''e2'') 100 entries0)
       = Found (Some (e_gone ++ (spread (update_arg (by_id ''e2'')))(''deleted_at'' \<mapsto> Null)))"
    using soft_delete_extension [OF m, of Upsert 100 entries0 "by_id ''e2''"] f2 by blast
  then have X: "fst (allOperations ''LibraryEntry'' Upsert (by_id ''e2'') 100 entries0)
       = Found (Some (e_gone(''deleted_at'' \<mapsto> Null)))"
    by (simp add: by_id_def)
  note T = soft_delete_extension [OF m, of DeleteMany 100 entries0 "by_id ''e1''"]
  from T [THEN conjunct2, THEN conjunct2, THEN conjunct1]
  have "snd (allOperations ''LibraryEntry'' DeleteMany (by_id ''e1'') 100 entries0) ''LibraryEntry''
          = map (\<lambda>r. if matches (spread (where_arg (by_id ''e1''))) r
                     then r(''deleted_at'' \<mapsto> Date 100) else r) (entries0 ''LibraryEntry'')" .
  then have M: "snd (allOperations ''LibraryEntry'' DeleteMany (by_id ''e1'') 100 entries0)
                  ''LibraryEntry'' = [e_live(''deleted_at'' \<mapsto> Date 100), e_gone]"
    by (simp add: tbl by_id_def matches_single id1 id2)
  have ne: "''Series'' \<noteq> ''LibraryEntry''" by simp
  from T [THEN conjunct1] have "\<forall>m. m \<noteq> ''LibraryEntry'' \<longrightarrow>
      snd (allOperations ''LibraryEntry'' DeleteMany (by_id ''e1'') 100 entries0) m = entries0 m"
    by simp
  then have "''Series'' \<noteq> ''LibraryEntry'' \<longrightarrow>
      snd (allOperations ''LibraryEntry'' DeleteMany (by_id ''e1'') 100 entries0) ''Series''
        = entries0 ''Series''"
    by (rule spec)
  with ne have O: "snd (allOperations ''LibraryEntry'' DeleteMany (by_id ''e1'') 100 entries0)
                     ''Series'' = entries0 ''Series''"
    by (rule rev_mp)
  from D R C U X have five:
    "fst (allOperations ''LibraryEntry'' Delete (by_id ''e1'') 100 entries0)
       = Found (Some (e_live(''deleted_at'' \<mapsto> Date 100)))
     \<and> e_gone \<notin> set (returned (fst (allOperations ''LibraryEntry'' FindMany no_args 100 entries0)))
     \<and> fst (allOperations ''LibraryEntry'' CountRows (by_id ''e2'') 100 entries0) = Counted 0
     \<and> allOperations ''LibraryEntry'' Update (by_id ''e2'') 100 entries0
         = (Failed RecordNotFound, entries0)
     \<and> fst (allOperations ''LibraryEntry'' Upsert (by_id ''e2'') 100 entries0)
         = Found (Some (e_gone(''deleted_at'' \<mapsto> Null)))"
    by (intro conjI)
  from five M O show ?thesis by (simp only: simp_thms)
qed



section \<open>Tier exclusion in the scheduler\<close>

text \<open>
  Claim C7. Whatever its \<open>next_check_at\<close>, a source whose owning series has tier C is
  not in the batch a scheduler run enqueues; every source in the batch belongs to a series
  of tier A or B and has \<open>next_check_at <= now\<close>.
\<close>

theorem tier_c_never_enqueued:
  "(tiers (source_series_id src) = Some Tier_C \<longrightarrow>
      src \<notin> set (fst (runMasterScheduler waiting backlog_ceiling failure_ceiling interval now
                         tiers sources)))
   \<and> (src \<in> set (fst (runMasterScheduler waiting backlog_ceiling failure_ceiling interval now
                         tiers sources)) \<longrightarrow>
        (tiers (source_series_id src) = Some Tier_A \<or> tiers (source_series_id src) = Some Tier_B)
        \<and> next_check_at src \<le> now \<and> src \<in> set sources)"
  by (auto simp: runMasterScheduler_def is_due_def owner_tier_def)

theorem tier_c_never_enqueued_witness:
  "fst (runMasterScheduler 0 10000 5 interval0 100 tiers0 [source_a, source_c]) = [source_a]
   \<and> source_c \<notin> set (fst (runMasterScheduler 0 10000 5 interval0 100 tiers0 [source_a, source_c]))
   \<and> tiers0 (source_series_id source_a) = Some Tier_A \<and> next_check_at source_a \<le> 100"
proof -
  let ?batch = "fst (runMasterScheduler 0 10000 5 interval0 100 tiers0 [source_a, source_c])"
  have c: "tiers0 (source_series_id source_c) = Some Tier_C"
    by (simp add: tiers0_def source_c_def)
  have 1: "source_c \<notin> set ?batch"
    using tier_c_never_enqueued [of tiers0 source_c 0 10000 5 interval0 100 "[source_a, source_c]"] c
    by blast
  have 2: "?batch = [source_a]"
    by (simp add: runMasterScheduler_def is_due_def owner_tier_def tiers0_def source_a_def source_c_def)
  then have "source_a \<in> set ?batch" by simp
  with tier_c_never_enqueued [of tiers0 source_a 0 10000 5 interval0 100 "[source_a, source_c]"]
  have "(tiers0 (source_series_id source_a) = Some Tier_A
          \<or> tiers0 (source_series_id source_a) = Some Tier_B)
        \<and> next_check_at source_a \<le> 100" by blast
  then have 3: "tiers0 (source_series_id source_a) = Some Tier_A \<and> next_check_at source_a \<le> 100"
    by (simp add: tiers0_def source_a_def)
  from 1 2 3 show ?thesis by blast
qed

section \<open>Gap detection\<close>

lemma integer_chapters_set:
  "set (integer_chapters numbers) = {n. of_int n \<in> set numbers \<and> of_int n \<noteq> NO_NUMBER_SENTINEL}"
proof -
  have "floor ` {x \<in> set numbers. x \<noteq> NO_NUMBER_SENTINEL \<and> is_integer x}
          = {n. of_int n \<in> set numbers \<and> of_int n \<noteq> NO_NUMBER_SENTINEL}"
  proof (intro set_eqI iffI)
    fix n
    assume "n \<in> floor ` {x \<in> set numbers. x \<noteq> NO_NUMBER_SENTINEL \<and> is_integer x}"
    then obtain x where "x \<in> set numbers" "x \<noteq> NO_NUMBER_SENTINEL" "is_integer x" "n = \<lfloor>x\<rfloor>"
      by auto
    from \<open>is_integer x\<close> \<open>n = \<lfloor>x\<rfloor>\<close> have "of_int n = x"
      unfolding is_integer_def by simp
    with \<open>x \<in> set numbers\<close> \<open>x \<noteq> NO_NUMBER_SENTINEL\<close>
    show "n \<in> {n. of_int n \<in> set numbers \<and> of_int n \<noteq> NO_NUMBER_SENTINEL}"
      by simp
  next
    fix n
    assume "n \<in> {n. of_int n \<in> set numbers \<and> of_int n \<noteq> NO_NUMBER_SENTINEL}"
    then have "of_int n \<in> {x \<in> set numbers. x \<noteq> NO_NUMBER_SENTINEL \<and> is_integer x}"
      by (simp add: is_integer_def)
    then have "\<lfloor>of_int n :: rat\<rfloor> \<in> floor ` {x \<in> set numbers. x \<noteq> NO_NUMBER_SENTINEL \<and> is_integer x}"
      by (rule imageI)
    then show "n \<in> floor ` {x \<in> set numbers. x \<noteq> NO_NUMBER_SENTINEL \<and> is_integer x}"
      by simp
  qed
  then show ?thesis by (simp add: integer_chapters_def)
qed

lemma integer_chapters_sorted: "sorted (integer_chapters numbers)"
  by (simp add: integer_chapters_def)

lemma sorted_le_last: "sorted xs \<Longrightarrow> y \<in> set xs \<Longrightarrow> y \<le> last xs"
  by (induction xs) auto

lemma sorted_hd_last:
  assumes "sorted (x # xs)"
  shows "x = Min (set (x # xs))" and "last (x # xs) = Max (set (x # xs))"
proof -
  from assms have "\<forall>y \<in> set (x # xs). x \<le> y" by auto
  then show "x = Min (set (x # xs))"
    by (intro Min_eqI [symmetric]) auto
  from assms have "\<forall>y \<in> set (x # xs). y \<le> last (x # xs)"
    using sorted_le_last by blast
  then show "last (x # xs) = Max (set (x # xs))"
    by (intro Max_eqI [symmetric]) auto
qed

lemma detect_gaps_set:
  assumes "integer_chapters numbers \<noteq> []"
  shows "set (detect_gaps numbers) =
           {n. Min (set (integer_chapters numbers)) < n \<and> n < Max (set (integer_chapters numbers))
               \<and> n \<notin> set (integer_chapters numbers)}"
proof -
  from assms obtain lo rest where c: "integer_chapters numbers = lo # rest"
    by (cases "integer_chapters numbers") auto
  with integer_chapters_sorted [of numbers] have s: "sorted (lo # rest)" by simp
  have "set (detect_gaps numbers) =
          {n. lo < n \<and> n < last (lo # rest) \<and> n \<notin> set (lo # rest)}"
    by (auto simp: detect_gaps_def c)
  then show ?thesis
    using sorted_hd_last [OF s] by (simp add: c)
qed

lemma detect_gaps_none: "integer_chapters numbers = [] \<Longrightarrow> detect_gaps numbers = []"
  by (simp add: detect_gaps_def)

lemma detect_gaps_sorted: "sorted (detect_gaps numbers) \<and> distinct (detect_gaps numbers)"
  by (simp add: detect_gaps_def sorted_wrt_filter split: list.splits)

lemma gaps_examples:
  "detect_gaps [5, 1, 21 / 2, 10, - 1, 2] = [3, 4, 6, 7, 8, 9]"
  "detect_gaps present0 = [3, 4, 6, 7, 8, 9]"
  "detect_gaps present1 = []"
  by (simp_all add: detect_gaps_def integer_chapters_def is_integer_def NO_NUMBER_SENTINEL_def
      present0_def present1_def del: of_int_floor_cancel)

text \<open>
  Claim C8. The gaps reported for a series are exactly the integers strictly between the
  least and the greatest integer chapter number (sentinel left out) that are not chapter
  numbers, in ascending order: chapters 1, 2, 5, 10 give 3, 4, 6, 7, 8, 9, six gaps, and
  chapters 1, 2, 3 give none. With at least one gap the detector returns \<open>triggered\<close> with
  the number of gaps and the number of healthy sources and enqueues one re-crawl per
  source of the series with \<open>failure_count\<close> below 5; with no gap it returns the no-op
  result and enqueues nothing.
\<close>

theorem gap_detection:
  "(observed numbers \<noteq> {} \<longrightarrow>
      set (detect_gaps numbers) =
        {n. Min (observed numbers) < n \<and> n < Max (observed numbers) \<and> n \<notin> observed numbers})
   \<and> (observed numbers = {} \<longrightarrow> detect_gaps numbers = [])
   \<and> sorted (detect_gaps numbers) \<and> distinct (detect_gaps numbers)
   \<and> detect_gaps present0 = [3, 4, 6, 7, 8, 9] \<and> length (detect_gaps present0) = 6
   \<and> detect_gaps present1 = []
   \<and> (detect_gaps numbers \<noteq> [] \<longrightarrow>
        processGapRecovery sid numbers sources =
          (Triggered (length (detect_gaps numbers)) (length (healthy_sources sid sources)),
           map source_id (healthy_sources sid sources)))
   \<and> (detect_gaps numbers = [] \<longrightarrow> processGapRecovery sid numbers sources = (NoGaps, []))
   \<and> set (healthy_sources sid sources) =
        {s \<in> set sources. source_series_id s = sid \<and> failure_count s < 5}"
proof -
  have S: "set (integer_chapters numbers) = observed numbers"
    by (simp add: integer_chapters_set observed_def)
  have a: "observed numbers \<noteq> {} \<longrightarrow> set (detect_gaps numbers) =
        {n. Min (observed numbers) < n \<and> n < Max (observed numbers) \<and> n \<notin> observed numbers}"
  proof
    assume "observed numbers \<noteq> {}"
    with S have "integer_chapters numbers \<noteq> []" by auto
    from detect_gaps_set [OF this] show "set (detect_gaps numbers) =
        {n. Min (observed numbers) < n \<and> n < Max (observed numbers) \<and> n \<notin> observed numbers}"
      by (simp only: S)
  qed
  have b: "observed numbers = {} \<longrightarrow> detect_gaps numbers = []"
  proof
    assume "observed numbers = {}"
    with S have "integer_chapters numbers = []" by simp
    then show "detect_gaps numbers = []" by (rule detect_gaps_none)
  qed
  have c: "sorted (detect_gaps numbers) \<and> distinct (detect_gaps numbers)"
    by (rule detect_gaps_sorted)
  have d: "detect_gaps present0 = [3, 4, 6, 7, 8, 9] \<and> length (detect_gaps present0) = 6
           \<and> detect_gaps present1 = []"
    by (simp add: gaps_examples)
  have e: "detect_gaps numbers \<noteq> [] \<longrightarrow>
        processGapRecovery sid numbers sources =
          (Triggered (length (detect_gaps numbers)) (length (healthy_sources sid sources)),
           map source_id (healthy_sources sid sources))"
    by (simp add: processGapRecovery_def Let_def)
  have f: "detect_gaps numbers = [] \<longrightarrow> processGapRecovery sid numbers sources = (NoGaps, [])"
    by (simp add: processGapRecovery_def Let_def)
  have g: "set (healthy_sources sid sources) =
        {s \<in> set sources. source_series_id s = sid \<and> failure_count s < 5}"
    by (auto simp: healthy_sources_def FAILURE_CEILING_def)
  from a b c d e f g show ?thesis by blast
qed

theorem gap_detection_witness:
  "processGapRecovery ''s1'' present0 [] = (Triggered 6 0, [])
   \<and> processGapRecovery ''s1'' present0 sources0 = (Triggered 6 1, [''src-1''])
   \<and> processGapRecovery ''s1'' present1 sources0 = (NoGaps, [])"
proof -
  have g0: "detect_gaps present0 = [3, 4, 6, 7, 8, 9]" and g1: "detect_gaps present1 = []"
    using gap_detection [of present0 "''s1''" "[]"] by blast+
  have "processGapRecovery ''s1'' present0 [] = (Triggered 6 0, [])"
    using gap_detection [of present0 "''s1''" "[]"] by (simp add: g0 healthy_sources_def)
  moreover have "processGapRecovery ''s1'' present0 sources0 = (Triggered 6 1, [''src-1''])"
    using gap_detection [of present0 "''s1''" sources0]
    by (simp add: g0 healthy_sources_def sources0_def FAILURE_CEILING_def)
  moreover have "processGapRecovery ''s1'' present1 sources0 = (NoGaps, [])"
    using gap_detection [of present1 "''s1''" sources0] by (simp add: g1)
  ultimately show ?thesis by blast
qed

section \<open>Idempotent ingestion and cross-source deduplication\<close>
























lemma fresh_sources_keys:
  "seriesSourceId r \<notin> cs_series_source_id ` set css \<Longrightarrow> report_cs_key r \<notin> cs_key ` set css"
  by (auto simp: report_cs_key_def cs_key_def)












end
